theory Spec2Isabelle
  imports Complex_Main
begin

section \<open>Numbers, points and bounding boxes\<close>

text \<open>
  The route geometry is a GeoJSON line: a list of \<open>[lon, lat]\<close> pairs. JavaScript numbers
  are modelled as real numbers; the two infinities that \<open>computeSegmentBboxes\<close> uses as
  initial extrema are the extra values of \<open>xnum\<close>.
\<close>

type_synonym point = "real \<times> real"

datatype xnum = NegInfinity | Finite real | PosInfinity

text \<open>\<open>x < m\<close> and \<open>x > m\<close> for a finite \<open>x\<close> and a possibly infinite \<open>m\<close>.\<close>

fun lt_x :: "real \<Rightarrow> xnum \<Rightarrow> bool" where
  "lt_x x PosInfinity = True"
| "lt_x x (Finite m) = (x < m)"
| "lt_x x NegInfinity = False"

fun gt_x :: "real \<Rightarrow> xnum \<Rightarrow> bool" where
  "gt_x x NegInfinity = True"
| "gt_x x (Finite m) = (x > m)"
| "gt_x x PosInfinity = False"

text \<open>\<open>m + d\<close> for a finite \<open>d\<close>.\<close>

fun plus_x :: "xnum \<Rightarrow> real \<Rightarrow> xnum" where
  "plus_x (Finite m) d = Finite (m + d)"
| "plus_x PosInfinity d = PosInfinity"
| "plus_x NegInfinity d = NegInfinity"

record bbox =
  bbox_s :: xnum
  bbox_n :: xnum
  bbox_w :: xnum
  bbox_e :: xnum

text \<open>\<open>Array.prototype.slice(a, b)\<close> for \<open>0 \<le> a\<close>.\<close>

definition slice :: "'a list \<Rightarrow> nat \<Rightarrow> nat \<Rightarrow> 'a list" where
  "slice xs a b = take (b - a) (drop a xs)"

section \<open>Region segmenter: \<open>computeSegmentBboxes\<close>\<close>

definition buffer :: real where
  "buffer = 3 / 1000"

record extrema =
  minLat :: xnum
  maxLat :: xnum
  minLon :: xnum
  maxLon :: xnum

definition extrema_init :: extrema where
  "extrema_init = \<lparr>minLat = PosInfinity, maxLat = NegInfinity,
                    minLon = PosInfinity, maxLon = NegInfinity\<rparr>"

text \<open>One turn of the inner loop \<open>for (const [lon, lat] of segment)\<close>.\<close>

definition extrema_step :: "extrema \<Rightarrow> point \<Rightarrow> extrema" where
  "extrema_step ex p =
     (case p of (lon, lat) \<Rightarrow>
        let ex1 = (if lt_x lat (minLat ex) then ex\<lparr>minLat := Finite lat\<rparr> else ex);
            ex2 = (if gt_x lat (maxLat ex1) then ex1\<lparr>maxLat := Finite lat\<rparr> else ex1);
            ex3 = (if lt_x lon (minLon ex2) then ex2\<lparr>minLon := Finite lon\<rparr> else ex2)
        in (if gt_x lon (maxLon ex3) then ex3\<lparr>maxLon := Finite lon\<rparr> else ex3))"

definition segmentBbox :: "point list \<Rightarrow> bbox" where
  "segmentBbox segment =
     (let ex = foldl extrema_step extrema_init segment
      in \<lparr>bbox_s = plus_x (minLat ex) (- buffer), bbox_n = plus_x (maxLat ex) buffer,
          bbox_w = plus_x (minLon ex) (- buffer), bbox_e = plus_x (maxLon ex) buffer\<rparr>)"

text \<open>
  \<open>Math.max(1, Math.ceil(coords.length / maxSegments))\<close>, for \<open>maxSegments \<ge> 1\<close>.
\<close>

definition segmentSize :: "'a list \<Rightarrow> nat \<Rightarrow> nat" where
  "segmentSize coords maxSegments =
     max 1 (nat \<lceil>real (length coords) / real maxSegments\<rceil>)"

text \<open>
  The loop \<open>for (let i = 0; i < coords.length; i += segmentSize)\<close>, started at \<open>i\<close>; it
  returns the slices it takes, one per turn.
\<close>

function segmentsFrom :: "'a list \<Rightarrow> nat \<Rightarrow> nat \<Rightarrow> 'a list list" where
  "segmentsFrom coords maxSegments i =
     (if i < length coords
      then slice coords i (i + segmentSize coords maxSegments + 1)
             # segmentsFrom coords maxSegments (i + segmentSize coords maxSegments)
      else [])"
  by pat_completeness auto
termination
  by (relation "measure (\<lambda>(coords, maxSegments, i). length coords - i)")
     (auto simp: segmentSize_def)

text \<open>
  The slices of a route. With \<open>maxSegments = 0\<close> the division gives \<open>Infinity\<close> (one slice
  holding the whole route) or, for an empty route, \<open>NaN\<close> (the loop does not run).
\<close>

definition routeSegments :: "'a list \<Rightarrow> nat \<Rightarrow> 'a list list" where
  "routeSegments coords maxSegments =
     (if maxSegments = 0 then (if coords = [] then [] else [coords])
      else segmentsFrom coords maxSegments 0)"

definition computeSegmentBboxes :: "point list \<Rightarrow> nat \<Rightarrow> bbox list" where
  "computeSegmentBboxes coords maxSegments = map segmentBbox (routeSegments coords maxSegments)"

text \<open>The slices joined again, each but the first without its first (shared) point.\<close>

fun joinSegments :: "'a list list \<Rightarrow> 'a list" where
  "joinSegments [] = []"
| "joinSegments (c # cs) = c @ concat (map tl cs)"

section \<open>Thrown values\<close>

text \<open>
  A thrown value is an error object. The errors that the program, \<open>fetch\<close> and \<open>JSON.parse\<close>
  create carry their message. The errors that the engine raises on its own are kept by their
  cause: reading a property of \<open>null\<close> (the name of the property), iterating a value that has
  no iterator (the expression), and a call with more spread arguments than the engine takes.
  The first two are instances of \<open>TypeError\<close>, the third of \<open>RangeError\<close>; the text of their
  message is the engine's.
\<close>

datatype fault = PropertyOfNull string | NotIterable string | TooManyArguments

datatype js_error =
    Error string
  | TypeError string
  | SyntaxError string
  | AbortError string
  | Raised fault

text \<open>
  A \<open>for ... of\<close> loop whose body may throw: the loop ends at the first turn that throws, with
  the thrown value.
\<close>

fun forOf :: "('b \<Rightarrow> 'a \<Rightarrow> js_error + 'b) \<Rightarrow> 'b \<Rightarrow> 'a list \<Rightarrow> js_error + 'b" where
  "forOf body acc [] = Inr acc"
| "forOf body acc (x # xs) =
     (case body acc x of Inl err \<Rightarrow> Inl err | Inr acc' \<Rightarrow> forOf body acc' xs)"

section \<open>Map features\<close>

text \<open>
  An object of the \<open>elements\<close> array of an Overpass response: \<open>{type, id, lat, lon}\<close> for a
  node and \<open>{type, id, nodes, tags}\<close> for a way. Identifiers are non-negative integers, and
  an \<open>id\<close> of \<open>0\<close> is the falsy identifier. The fields \<open>lat\<close>, \<open>lon\<close>, \<open>nodes\<close> and \<open>tags\<close>
  may be missing; \<open>tags\<close> lists the properties of the tag object. An entry of the array is
  such an object or \<open>null\<close>, which is \<open>None\<close>.
\<close>

record element =
  el_type :: string
  el_id :: nat
  el_lat :: "real option"
  el_lon :: "real option"
  el_nodes :: "nat list option"
  el_tags :: "(string \<times> string) list option"

text \<open>\<open>el.tags?.junction\<close>\<close>

definition junction :: "element \<Rightarrow> string option" where
  "junction el = (case el_tags el of None \<Rightarrow> None | Some tags \<Rightarrow> map_of tags ''junction'')"

text \<open>The predicate of the \<open>filter\<close> call in \<open>deduplicateRoundabouts\<close>.\<close>

definition isRoundaboutWay :: "element \<Rightarrow> bool" where
  "isRoundaboutWay el \<longleftrightarrow>
     el_type el = ''way''
     \<and> (junction el = Some ''roundabout'' \<or> junction el = Some ''circular'')"

section \<open>Junction grouper: \<open>deduplicateRoundabouts\<close>\<close>

record grouping =
  nodeToGroup :: "nat \<rightharpoonup> nat"
  groupId :: nat
  wayToGroup :: "nat \<rightharpoonup> nat"

definition grouping_init :: grouping where
  "grouping_init = \<lparr>nodeToGroup = Map.empty, groupId = 0, wayToGroup = Map.empty\<rparr>"

text \<open>
  The search loop: the group of the first node of the way that \<open>nodeToGroup\<close> has, or \<open>null\<close>.
\<close>

fun existingGroup :: "(nat \<rightharpoonup> nat) \<Rightarrow> nat list \<Rightarrow> nat option" where
  "existingGroup m [] = None"
| "existingGroup m (nodeId # rest) =
     (case m nodeId of Some g \<Rightarrow> Some g | None \<Rightarrow> existingGroup m rest)"

text \<open>\<open>for (const nodeId of way.nodes) nodeToGroup.set(nodeId, g)\<close>\<close>

definition setNodes :: "(nat \<rightharpoonup> nat) \<Rightarrow> nat list \<Rightarrow> nat \<Rightarrow> (nat \<rightharpoonup> nat)" where
  "setNodes m nodes g = foldl (\<lambda>m' nodeId. m'(nodeId \<mapsto> g)) m nodes"

text \<open>
  One turn of the first loop over \<open>roundaboutWays\<close>. The search loop comes first: a way
  without a \<open>nodes\<close> array makes it throw.
\<close>

definition groupStep :: "grouping \<Rightarrow> element \<Rightarrow> js_error + grouping" where
  "groupStep st way =
     (case el_nodes way of
        None \<Rightarrow> Inl (Raised (NotIterable ''way.nodes''))
      | Some nodes \<Rightarrow>
          Inr (case existingGroup (nodeToGroup st) nodes of
                 Some g \<Rightarrow>
                   st\<lparr>wayToGroup := (wayToGroup st)(el_id way \<mapsto> g),
                      nodeToGroup := setNodes (nodeToGroup st) nodes g\<rparr>
               | None \<Rightarrow>
                   (let gid = groupId st
                    in st\<lparr>groupId := gid + 1,
                          wayToGroup := (wayToGroup st)(el_id way \<mapsto> gid),
                          nodeToGroup := setNodes (nodeToGroup st) nodes gid\<rparr>)))"

text \<open>
  The result \<open>Map<groupId, way[]>\<close> in insertion order. A key is what \<open>wayToGroup.get\<close>
  returns, so \<open>None\<close> stands for \<open>undefined\<close>.
\<close>

type_synonym groups = "(nat option \<times> element list) list"

text \<open>One turn of the second loop over \<open>roundaboutWays\<close>.\<close>

definition collectStep :: "(nat \<rightharpoonup> nat) \<Rightarrow> groups \<Rightarrow> element \<Rightarrow> groups" where
  "collectStep w2g groups way =
     (let gid = w2g (el_id way);
          groups1 = (if map_of groups gid = None then groups @ [(gid, [])] else groups)
      in map (\<lambda>(k, ways). if k = gid then (k, ways @ [way]) else (k, ways)) groups1)"

definition deduplicateRoundabouts :: "element list \<Rightarrow> js_error + groups" where
  "deduplicateRoundabouts elements =
     (let roundaboutWays = filter isRoundaboutWay elements
      in case forOf groupStep grouping_init roundaboutWays of
           Inl err \<Rightarrow> Inl err
         | Inr st \<Rightarrow> Inr (foldl (collectStep (wayToGroup st)) [] roundaboutWays))"

text \<open>
  The node ids of a way; two ways share a node; two ways are in the same group of a result;
  the partition of a result, without the group ids.
\<close>

definition nodesOf :: "element \<Rightarrow> nat list" where
  "nodesOf way = (case el_nodes way of Some nodes \<Rightarrow> nodes | None \<Rightarrow> [])"

definition sharesNode :: "element \<Rightarrow> element \<Rightarrow> bool" where
  "sharesNode a b \<longleftrightarrow> set (nodesOf a) \<inter> set (nodesOf b) \<noteq> {}"

definition sameGroup :: "groups \<Rightarrow> element \<Rightarrow> element \<Rightarrow> bool" where
  "sameGroup gs a b \<longleftrightarrow> (\<exists>ways \<in> set (map snd gs). a \<in> set ways \<and> b \<in> set ways)"

definition partitionOf :: "groups \<Rightarrow> element set set" where
  "partitionOf gs = set (map (set \<circ> snd) gs)"

text \<open>A roundabout way with the given id and node ids.\<close>

definition roundabout :: "nat \<Rightarrow> nat list \<Rightarrow> element" where
  "roundabout i ns =
     \<lparr>el_type = ''way'', el_id = i, el_lat = None, el_lon = None, el_nodes = Some ns,
      el_tags = Some [(''junction'', ''roundabout'')]\<rparr>"

text \<open>A node with the given id and position.\<close>

definition node :: "nat \<Rightarrow> real \<Rightarrow> real \<Rightarrow> element" where
  "node i lat lon =
     \<lparr>el_type = ''node'', el_id = i, el_lat = Some lat, el_lon = Some lon, el_nodes = None,
      el_tags = None\<rparr>"

section \<open>Feature deduplicator\<close>

text \<open>The decimal digits of a non-negative integer, as a template literal renders it.\<close>

definition digit :: "nat \<Rightarrow> char" where
  "digit d = ''0123456789'' ! d"

function string_of_nat :: "nat \<Rightarrow> string" where
  "string_of_nat n =
     (if n < 10 then [digit n] else string_of_nat (n div 10) @ [digit (n mod 10)])"
  by pat_completeness auto
termination
  by (relation "measure id") auto

text \<open>The key \<open>`${el.type}-${el.id}`\<close>.\<close>

definition featureKey :: "element \<Rightarrow> string" where
  "featureKey el = el_type el @ ''-'' @ string_of_nat (el_id el)"

text \<open>
  \<open>uniqueElements\<close> is a \<open>Map\<close> from keys to elements, in insertion order. One turn of the
  loop: reading \<open>el.id\<close> throws when the entry is \<open>null\<close>; an element with a truthy id whose
  key is new is stored.
\<close>

definition uniqueStep ::
    "(string \<times> element) list \<Rightarrow> element option \<Rightarrow> js_error + (string \<times> element) list" where
  "uniqueStep m entry =
     (case entry of
        None \<Rightarrow> Inl (Raised (PropertyOfNull ''id''))
      | Some el \<Rightarrow>
          Inr (if el_id el \<noteq> 0 \<and> map_of m (featureKey el) = None
               then m @ [(featureKey el, el)] else m))"

text \<open>The loop, and \<open>[...uniqueElements.values()]\<close>.\<close>

definition uniqueElements :: "element option list \<Rightarrow> js_error + element list" where
  "uniqueElements allElements =
     (case forOf uniqueStep [] allElements of
        Inl err \<Rightarrow> Inl err
      | Inr m \<Rightarrow> Inr (map snd m))"

text \<open>The identity of a feature, and the occurrences that are the first of their identity.\<close>

definition identity :: "element \<Rightarrow> string \<times> nat" where
  "identity el = (el_type el, el_id el)"

fun firstOccurrences :: "(string \<times> nat) set \<Rightarrow> element list \<Rightarrow> element list" where
  "firstOccurrences seen [] = []"
| "firstOccurrences seen (el # els) =
     (if identity el \<in> seen then firstOccurrences seen els
      else el # firstOccurrences (insert (identity el) seen) els)"

section \<open>Geometry utilities\<close>

text \<open>
  \<open>Math.sqrt\<close> of a negative number is \<open>NaN\<close>; a result of type \<open>real option\<close> is \<open>None\<close>
  for \<open>NaN\<close>. \<open>Math.atan2\<close> and \<open>Math.hypot\<close> are the mathematical functions.
\<close>

definition atan2 :: "real \<Rightarrow> real \<Rightarrow> real" where
  "atan2 y x =
     (if 0 < x then arctan (y / x)
      else if x < 0 then (if 0 \<le> y then arctan (y / x) + pi else arctan (y / x) - pi)
      else if 0 < y then pi / 2
      else if y < 0 then - (pi / 2)
      else 0)"

definition hypot :: "real \<Rightarrow> real \<Rightarrow> real" where
  "hypot x y = sqrt (x\<^sup>2 + y\<^sup>2)"

definition toRad :: "real \<Rightarrow> real" where
  "toRad d = d * pi / 180"

text \<open>Haversine distance in metres between two points.\<close>

definition haversineMeters :: "real \<Rightarrow> real \<Rightarrow> real \<Rightarrow> real \<Rightarrow> real option" where
  "haversineMeters lat1 lon1 lat2 lon2 =
     (let R = 6371000;
          dLat = toRad (lat2 - lat1);
          dLon = toRad (lon2 - lon1);
          a = (sin (dLat / 2))\<^sup>2 + cos (toRad lat1) * cos (toRad lat2) * (sin (dLon / 2))\<^sup>2
      in if a < 0 \<or> 1 - a < 0 then None
         else Some (R * 2 * atan2 (sqrt a) (sqrt (1 - a))))"

text \<open>Minimum distance from a point to a polyline segment.\<close>

definition distToSegment :: "real \<Rightarrow> real \<Rightarrow> real \<Rightarrow> real \<Rightarrow> real \<Rightarrow> real \<Rightarrow> real" where
  "distToSegment px py ax ay bx by =
     (let dx = bx - ax; dy = by - ay;
          lenSq = dx * dx + dy * dy
      in if lenSq = 0 then hypot (px - ax) (py - ay)
         else (let t0 = ((px - ax) * dx + (py - ay) * dy) / lenSq;
                   t = max 0 (min 1 t0)
               in hypot (px - (ax + t * dx)) (py - (ay + t * dy))))"

text \<open>The quantity \<open>a\<close> of \<open>haversineMeters\<close>.\<close>

definition haversineA :: "real \<Rightarrow> real \<Rightarrow> real \<Rightarrow> real \<Rightarrow> real" where
  "haversineA lat1 lon1 lat2 lon2 =
     (sin (toRad (lat2 - lat1) / 2))\<^sup>2
       + cos (toRad lat1) * cos (toRad lat2) * (sin (toRad (lon2 - lon1) / 2))\<^sup>2"

section \<open>Proximity filter: \<open>isNearRoute\<close>\<close>

text \<open>\<open>Math.max(1, Math.floor(routeCoords.length / 500))\<close>\<close>

definition sampleStep :: "point list \<Rightarrow> nat" where
  "sampleStep routeCoords = max 1 (length routeCoords div 500)"

text \<open>\<open>m < x\<close> for a possibly infinite \<open>m\<close> and a finite \<open>x\<close>.\<close>

fun x_lt :: "xnum \<Rightarrow> real \<Rightarrow> bool" where
  "x_lt NegInfinity x = True"
| "x_lt (Finite m) x = (m < x)"
| "x_lt PosInfinity x = False"

text \<open>
  The sampled segment of turn \<open>i\<close> of the first loop is not skipped by the rough
  degree-distance check.
\<close>

definition coarseKept :: "real \<Rightarrow> real \<Rightarrow> point list \<Rightarrow> nat \<Rightarrow> bool" where
  "coarseKept centroidLat centroidLon routeCoords i =
     (let j = min (i + sampleStep routeCoords) (length routeCoords - 1);
          (lon1, lat1) = routeCoords ! i;
          (lon2, lat2) = routeCoords ! j;
          midLat = (lat1 + lat2) / 2; midLon = (lon1 + lon2) / 2
      in \<not> (\<bar>centroidLat - midLat\<bar> > 5 / 100 \<and> \<bar>centroidLon - midLon\<bar> > 5 / 100))"

text \<open>The distance \<open>dist\<close> that turn \<open>i\<close> of the first loop computes.\<close>

definition coarseDist :: "real \<Rightarrow> real \<Rightarrow> point list \<Rightarrow> nat \<Rightarrow> real option" where
  "coarseDist centroidLat centroidLon routeCoords i =
     (let j = min (i + sampleStep routeCoords) (length routeCoords - 1);
          (lon1, lat1) = routeCoords ! i;
          (lon2, lat2) = routeCoords ! j
      in haversineMeters centroidLat centroidLon
           (lat1 + (lat2 - lat1) * (5 / 10)) (lon1 + (lon2 - lon1) * (5 / 10)))"

text \<open>
  The first loop, \<open>for (let i = 0; i < routeCoords.length - 1; i += step)\<close>, from turn \<open>i\<close>
  with the running minimum \<open>minDist\<close>: \<open>True\<close> when it returns \<open>true\<close>, \<open>False\<close> when it
  runs to its end. A \<open>NaN\<close> distance compares false and leaves \<open>minDist\<close> as it is.
\<close>

function coarsePass :: "real \<Rightarrow> real \<Rightarrow> point list \<Rightarrow> real \<Rightarrow> nat \<Rightarrow> xnum \<Rightarrow> bool" where
  "coarsePass centroidLat centroidLon routeCoords maxDistMeters i minDist =
     (if i + 1 < length routeCoords
      then (if \<not> coarseKept centroidLat centroidLon routeCoords i
            then coarsePass centroidLat centroidLon routeCoords maxDistMeters
                   (i + sampleStep routeCoords) minDist
            else (let minDist' =
                        (case coarseDist centroidLat centroidLon routeCoords i of
                           Some d \<Rightarrow> (if lt_x d minDist then Finite d else minDist)
                         | None \<Rightarrow> minDist)
                  in if x_lt minDist' maxDistMeters then True
                     else coarsePass centroidLat centroidLon routeCoords maxDistMeters
                            (i + sampleStep routeCoords) minDist'))
      else False)"
  by pat_completeness auto
termination
  by (relation "measure (\<lambda>(clat, clon, routeCoords, m, i, d). length routeCoords - i)")
     (auto simp: sampleStep_def)

text \<open>
  Segment \<open>i\<close> of the second loop is not skipped by the quick latitude/longitude rejection.
\<close>

definition fineKept :: "real \<Rightarrow> real \<Rightarrow> point list \<Rightarrow> nat \<Rightarrow> bool" where
  "fineKept centroidLat centroidLon routeCoords i =
     (let (lon1, lat1) = routeCoords ! i;
          (lon2, lat2) = routeCoords ! (i + 1);
          segMinLat = min lat1 lat2 - 1 / 1000;
          segMaxLat = max lat1 lat2 + 1 / 1000;
          segMinLon = min lon1 lon2 - 1 / 1000;
          segMaxLon = max lon1 lon2 + 1 / 1000
      in \<not> (centroidLat < segMinLat \<or> centroidLat > segMaxLat \<or>
             centroidLon < segMinLon \<or> centroidLon > segMaxLon))"

text \<open>The distance \<open>approxMeters\<close> that turn \<open>i\<close> of the second loop computes.\<close>

definition approxMeters :: "real \<Rightarrow> real \<Rightarrow> point list \<Rightarrow> nat \<Rightarrow> real" where
  "approxMeters centroidLat centroidLon routeCoords i =
     (let (lon1, lat1) = routeCoords ! i;
          (lon2, lat2) = routeCoords ! (i + 1);
          flatDist = distToSegment centroidLon centroidLat lon1 lat1 lon2 lat2
      in flatDist * 111320 * cos (centroidLat * pi / 180))"

text \<open>The second loop, \<open>for (let i = 0; i < routeCoords.length - 1; i++)\<close>, from turn \<open>i\<close>.\<close>

function finePass :: "real \<Rightarrow> real \<Rightarrow> point list \<Rightarrow> real \<Rightarrow> nat \<Rightarrow> bool" where
  "finePass centroidLat centroidLon routeCoords maxDistMeters i =
     (if i + 1 < length routeCoords
      then (if \<not> fineKept centroidLat centroidLon routeCoords i
            then finePass centroidLat centroidLon routeCoords maxDistMeters (i + 1)
            else if approxMeters centroidLat centroidLon routeCoords i < maxDistMeters then True
            else finePass centroidLat centroidLon routeCoords maxDistMeters (i + 1))
      else False)"
  by pat_completeness auto
termination
  by (relation "measure (\<lambda>(clat, clon, routeCoords, m, i). length routeCoords - i)") auto

definition isNearRoute :: "real \<Rightarrow> real \<Rightarrow> point list \<Rightarrow> real \<Rightarrow> bool" where
  "isNearRoute centroidLat centroidLon routeCoords maxDistMeters =
     (if coarsePass centroidLat centroidLon routeCoords maxDistMeters 0 PosInfinity then True
      else finePass centroidLat centroidLon routeCoords maxDistMeters 0)"

text \<open>
  The turns of the first loop, and the distances the two loops compare with the threshold:
  those of the turns that are not skipped.
\<close>

definition coarseTurns :: "point list \<Rightarrow> nat list" where
  "coarseTurns routeCoords =
     filter (\<lambda>i. i mod sampleStep routeCoords = 0) [0 ..< length routeCoords - 1]"

definition coarseDists :: "real \<Rightarrow> real \<Rightarrow> point list \<Rightarrow> real list" where
  "coarseDists centroidLat centroidLon routeCoords =
     concat (map (\<lambda>i. if coarseKept centroidLat centroidLon routeCoords i
                       then (case coarseDist centroidLat centroidLon routeCoords i of
                               Some d \<Rightarrow> [d] | None \<Rightarrow> [])
                       else [])
             (coarseTurns routeCoords))"

definition fineDists :: "real \<Rightarrow> real \<Rightarrow> point list \<Rightarrow> real list" where
  "fineDists centroidLat centroidLon routeCoords =
     map (approxMeters centroidLat centroidLon routeCoords)
       (filter (fineKept centroidLat centroidLon routeCoords) [0 ..< length routeCoords - 1])"

section \<open>The console and the remote service\<close>

text \<open>
  The program runs in a world that holds the state of the remote service, the lines written
  to the console and the milliseconds spent in \<open>delay\<close>. What the program does not define is
  a parameter: the rendering of a number in a template literal, \<open>encodeURIComponent\<close>,
  \<open>fetch\<close> (the request body in, a response or a rejection out, the abort after 120 seconds
  being one of the rejections), \<open>JSON.parse\<close>, the message texts of the errors that the
  engine raises, and the number of spread arguments above which the engine refuses a call.
\<close>

record response =
  res_status :: nat
  res_text :: "js_error + string"

text \<open>\<open>res.ok\<close>\<close>

definition res_ok :: "response \<Rightarrow> bool" where
  "res_ok res \<longleftrightarrow> 200 \<le> res_status res \<and> res_status res \<le> 299"

text \<open>
  A parsed response: the document \<open>null\<close>, or a value with its \<open>elements\<close>, which is \<open>None\<close>
  when the document has no such array.
\<close>

datatype overpass_data = NullData | Data "element option list option"

datatype log_line = ConsoleLog "string list" | ConsoleError "string list"

record 's world =
  w_service :: 's
  w_console :: "log_line list"
  w_waited :: nat

record 's env =
  numToString :: "xnum \<Rightarrow> string"
  encodeURIComponent :: "string \<Rightarrow> string"
  fetch :: "'s \<Rightarrow> string \<Rightarrow> (js_error + response) \<times> 's"
  jsonParse :: "string \<Rightarrow> js_error + overpass_data"
  faultMessage :: "fault \<Rightarrow> string"
  spreadLimit :: nat

text \<open>\<open>err.message\<close>\<close>

definition message :: "'s env \<Rightarrow> js_error \<Rightarrow> string" where
  "message env err =
     (case err of
        Error m \<Rightarrow> m
      | TypeError m \<Rightarrow> m
      | SyntaxError m \<Rightarrow> m
      | AbortError m \<Rightarrow> m
      | Raised f \<Rightarrow> faultMessage env f)"

definition writeLine :: "log_line \<Rightarrow> 's world \<Rightarrow> 's world" where
  "writeLine l w = w\<lparr>w_console := w_console w @ [l]\<rparr>"

definition delay :: "nat \<Rightarrow> 's world \<Rightarrow> 's world" where
  "delay ms w = w\<lparr>w_waited := w_waited w + ms\<rparr>"

section \<open>Spatial query client: \<open>queryOverpassBboxes\<close>\<close>

definition newline :: string where
  "newline = [CHR 0x0A]"

definition dquote :: string where
  "dquote = [CHR 0x22]"

text \<open>\<open>Array.prototype.join\<close>\<close>

fun join :: "string \<Rightarrow> string list \<Rightarrow> string" where
  "join sep [] = []"
| "join sep [x] = x"
| "join sep (x # y # ys) = x @ sep @ join sep (y # ys)"

definition bboxArgs :: "'s env \<Rightarrow> bbox \<Rightarrow> string" where
  "bboxArgs env b =
     ''('' @ numToString env (bbox_s b) @ '','' @ numToString env (bbox_w b) @ '',''
       @ numToString env (bbox_n b) @ '','' @ numToString env (bbox_e b) @ '');''"

definition bboxFilter :: "'s env \<Rightarrow> bbox \<Rightarrow> string" where
  "bboxFilter env b =
     ''  way['' @ dquote @ ''junction'' @ dquote @ ''='' @ dquote @ ''roundabout'' @ dquote @ '']''
       @ bboxArgs env b @ newline @
     ''  way['' @ dquote @ ''junction'' @ dquote @ ''='' @ dquote @ ''circular'' @ dquote @ '']''
       @ bboxArgs env b"

definition buildQuery :: "'s env \<Rightarrow> bbox list \<Rightarrow> string" where
  "buildQuery env bboxes =
     ''[out:json][timeout:90][maxsize:10485760];'' @ newline @ ''('' @ newline
       @ join newline (map (bboxFilter env) bboxes) @ newline @ '');'' @ newline
       @ ''out body;'' @ newline @ ''>;'' @ newline @ ''out skel qt;''"

text \<open>
  The result is the value the promise resolves to (\<open>Inr\<close>) or the error it rejects with
  (\<open>Inl\<close>), and the world after the call.
\<close>

definition queryOverpassBboxes ::
    "'s env \<Rightarrow> bbox list \<Rightarrow> 's world \<Rightarrow> (js_error + overpass_data) \<times> 's world" where
  "queryOverpassBboxes env bboxes w =
     (let query = buildQuery env bboxes;
          w1 = writeLine (ConsoleLog
                 [''[Overpass] Querying '' @ string_of_nat (length bboxes)
                    @ '' bbox segments (query length: '' @ string_of_nat (length query) @ '')'']) w;
          (r, s') = fetch env (w_service w1) (''data='' @ encodeURIComponent env query);
          w2 = w1\<lparr>w_service := s'\<rparr>
      in case r of
           Inl err \<Rightarrow> (Inl err, w2)
         | Inr res \<Rightarrow>
             (if \<not> res_ok res
              then (case res_text res of
                      Inl err \<Rightarrow> (Inl err, w2)
                    | Inr text \<Rightarrow>
                        (Inl (Error (''Overpass API HTTP '' @ string_of_nat (res_status res))),
                         writeLine (ConsoleError
                           [''[Overpass] HTTP error:'', string_of_nat (res_status res),
                            take 200 text]) w2))
              else (case res_text res of
                      Inl err \<Rightarrow> (Inl err, w2)
                    | Inr text \<Rightarrow> (jsonParse env text, w2))))"

section \<open>Batch orchestrator and roundabout counter: \<open>countRoundabouts\<close>\<close>

record geometry =
  coordinates :: "point list"

definition BATCH_SIZE :: nat where
  "BATCH_SIZE = 12"

text \<open>
  The body of both \<open>try\<close> blocks after the query: \<open>allElements.push(...data.elements)\<close>, which
  throws when the query did, when \<open>data\<close> is \<open>null\<close>, when \<open>data.elements\<close> is not there to be
  spread, and when it has more entries than a call takes as arguments.
\<close>

definition pushElements ::
    "'s env \<Rightarrow> js_error + overpass_data \<Rightarrow> element option list
       \<Rightarrow> js_error + element option list" where
  "pushElements env r allElements =
     (case r of
        Inl err \<Rightarrow> Inl err
      | Inr NullData \<Rightarrow> Inl (Raised (PropertyOfNull ''elements''))
      | Inr (Data None) \<Rightarrow> Inl (Raised (NotIterable ''data.elements''))
      | Inr (Data (Some entries)) \<Rightarrow>
          (if spreadLimit env < length entries then Inl (Raised TooManyArguments)
           else Inr (allElements @ entries)))"

text \<open>One turn of the retry loop \<open>for (const singleBbox of batch)\<close>.\<close>

definition retryStep ::
    "'s env \<Rightarrow> element option list \<times> 's world \<Rightarrow> bbox
       \<Rightarrow> element option list \<times> 's world" where
  "retryStep env acc singleBbox =
     (case acc of (allElements, w) \<Rightarrow>
        (let (r, w1) = queryOverpassBboxes env [singleBbox] (delay 5000 w)
         in case pushElements env r allElements of
              Inr allElements' \<Rightarrow> (allElements', w1)
            | Inl retryErr \<Rightarrow>
                (allElements,
                 writeLine (ConsoleError
                   [''[Overpass] Single bbox retry also failed:'', message env retryErr]) w1)))"

text \<open>One turn of the batch loop, for the batch that starts at box \<open>i\<close>.\<close>

definition batchStep ::
    "'s env \<Rightarrow> bbox list \<Rightarrow> nat \<Rightarrow> element option list \<times> 's world
       \<Rightarrow> element option list \<times> 's world" where
  "batchStep env bboxes i acc =
     (case acc of (allElements, w) \<Rightarrow>
        (let batch = slice bboxes i (i + BATCH_SIZE);
             (r, w1) = queryOverpassBboxes env batch w;
             (allElements', w2) =
               (case pushElements env r allElements of
                  Inr pushed \<Rightarrow> (pushed, w1)
                | Inl err \<Rightarrow>
                    foldl (retryStep env)
                      (allElements,
                       writeLine (ConsoleError
                         [''[Overpass] Batch '' @ string_of_nat (i div BATCH_SIZE + 1)
                            @ '' failed:'', message env err]) w1)
                      batch)
         in (allElements', if i + BATCH_SIZE < length bboxes then delay 2000 w2 else w2)))"

text \<open>The batch loop \<open>for (let i = 0; i < bboxes.length; i += BATCH_SIZE)\<close>, from \<open>i\<close>.\<close>

function batchLoop ::
    "'s env \<Rightarrow> bbox list \<Rightarrow> nat \<Rightarrow> element option list \<times> 's world
       \<Rightarrow> element option list \<times> 's world" where
  "batchLoop env bboxes i acc =
     (if i < length bboxes
      then batchLoop env bboxes (i + BATCH_SIZE) (batchStep env bboxes i acc)
      else acc)"
  by pat_completeness auto
termination
  by (relation "measure (\<lambda>(env, bboxes, i, acc). length bboxes - i)")
     (auto simp: BATCH_SIZE_def)

text \<open>The node position lookup, built from the node elements that have both coordinates.\<close>

definition positionStep :: "(nat \<rightharpoonup> real \<times> real) \<Rightarrow> element \<Rightarrow> (nat \<rightharpoonup> real \<times> real)" where
  "positionStep m el =
     (case (el_lat el, el_lon el) of
        (Some lat, Some lon) \<Rightarrow> (if el_type el = ''node'' then m(el_id el \<mapsto> (lat, lon)) else m)
      | _ \<Rightarrow> m)"

definition nodePositions :: "element list \<Rightarrow> (nat \<rightharpoonup> real \<times> real)" where
  "nodePositions els = foldl positionStep Map.empty els"

text \<open>
  The sums over a group, with the state \<open>(sumLat, sumLon, count)\<close>: one turn of the inner
  loop \<open>for (const nodeId of way.nodes)\<close>, one turn of the loop \<open>for (const way of ways)\<close>,
  which throws when the way has no \<open>nodes\<close> array, and both loops.
\<close>

definition sumStep ::
    "(nat \<rightharpoonup> real \<times> real) \<Rightarrow> real \<times> real \<times> nat \<Rightarrow> nat \<Rightarrow> real \<times> real \<times> nat" where
  "sumStep positions acc nodeId =
     (case acc of (sumLat, sumLon, count) \<Rightarrow>
        (case positions nodeId of
           Some (lat, lon) \<Rightarrow> (sumLat + lat, sumLon + lon, count + 1)
         | None \<Rightarrow> (sumLat, sumLon, count)))"

definition sumWay ::
    "(nat \<rightharpoonup> real \<times> real) \<Rightarrow> real \<times> real \<times> nat \<Rightarrow> element
       \<Rightarrow> js_error + real \<times> real \<times> nat" where
  "sumWay positions acc way =
     (case el_nodes way of
        None \<Rightarrow> Inl (Raised (NotIterable ''way.nodes''))
      | Some nodes \<Rightarrow> Inr (foldl (sumStep positions) acc nodes))"

definition groupSums ::
    "(nat \<rightharpoonup> real \<times> real) \<Rightarrow> element list \<Rightarrow> js_error + real \<times> real \<times> nat" where
  "groupSums positions ways = forOf (sumWay positions) (0, 0, 0) ways"

text \<open>
  The centroid \<open>(centroidLat, centroidLon)\<close> of a group, \<open>None\<close> where the loop takes
  \<open>continue\<close> because no node of the group has a position.
\<close>

definition centroid ::
    "(nat \<rightharpoonup> real \<times> real) \<Rightarrow> element list \<Rightarrow> js_error + (real \<times> real) option" where
  "centroid positions ways =
     (case groupSums positions ways of
        Inl err \<Rightarrow> Inl err
      | Inr (sumLat, sumLon, count) \<Rightarrow>
          Inr (if count = 0 then None else Some (sumLat / real count, sumLon / real count)))"

text \<open>One turn of the loop \<open>for (const [gid, ways] of groups)\<close>.\<close>

definition nearStep ::
    "(nat \<rightharpoonup> real \<times> real) \<Rightarrow> point list \<Rightarrow> nat \<Rightarrow> nat option \<times> element list
       \<Rightarrow> js_error + nat" where
  "nearStep positions coords nearCount g =
     (case g of (gid, ways) \<Rightarrow>
        (case centroid positions ways of
           Inl err \<Rightarrow> Inl err
         | Inr None \<Rightarrow> Inr nearCount
         | Inr (Some (centroidLat, centroidLon)) \<Rightarrow>
             Inr (if isNearRoute centroidLat centroidLon coords 50 then nearCount + 1
                  else nearCount)))"

text \<open>
  The first part of \<open>countRoundabouts\<close>, to the end of the batch loop: the accumulated
  entries \<open>allElements\<close> and the world after the queries.
\<close>

definition fetchElements ::
    "'s env \<Rightarrow> point list \<Rightarrow> 's world \<Rightarrow> element option list \<times> 's world" where
  "fetchElements env coords w =
     (let w1 = writeLine (ConsoleLog
                 [''[Route] '' @ string_of_nat (length coords) @ '' coordinate points'']) w;
          bboxes = computeSegmentBboxes coords 12
      in batchLoop env bboxes 0 ([], w1))"

text \<open>
  The result that the second part derives from the accumulated entries: the count, or the
  error thrown on the way.
\<close>

definition countNear :: "point list \<Rightarrow> element option list \<Rightarrow> js_error + nat" where
  "countNear coords allElements =
     (case uniqueElements allElements of
        Inl err \<Rightarrow> Inl err
      | Inr els \<Rightarrow>
          (case deduplicateRoundabouts els of
             Inl err \<Rightarrow> Inl err
           | Inr groups \<Rightarrow> forOf (nearStep (nodePositions els) coords) 0 groups))"

text \<open>
  The whole function. Nothing catches what the second part throws: the promise is rejected
  with it.
\<close>

definition countRoundabouts ::
    "'s env \<Rightarrow> geometry \<Rightarrow> 's world \<Rightarrow> (js_error + nat) \<times> 's world" where
  "countRoundabouts env geom w =
     (let coords = coordinates geom;
          (allElements, w2) = fetchElements env coords w
      in case uniqueElements allElements of
           Inl err \<Rightarrow> (Inl err, w2)
         | Inr els \<Rightarrow>
             (case deduplicateRoundabouts els of
                Inl err \<Rightarrow> (Inl err, w2)
              | Inr groups \<Rightarrow>
                  (let w3 = writeLine (ConsoleLog
                              [''[Overpass] '' @ string_of_nat (length groups)
                                 @ '' roundabout groups in bboxes (before proximity filter)'']) w2
                   in case forOf (nearStep (nodePositions els) coords) 0 groups of
                        Inl err \<Rightarrow> (Inl err, w3)
                      | Inr nearCount \<Rightarrow>
                          (Inr nearCount,
                           writeLine (ConsoleLog
                             [''[Result] '' @ string_of_nat nearCount
                                @ '' roundabouts actually on route (filtered from ''
                                @ string_of_nat (length groups) @ '')'']) w3))))"

section \<open>Stub services and reference definitions\<close>

text \<open>
  A scripted service: its state is the list of the outcomes of the calls still to come, and a
  call past the end of the script is rejected. \<open>JSON.parse\<close> is a table from response texts
  to documents. The engine of the stubs has one message text for its errors and takes
  100000 spread arguments.
\<close>

definition scriptedEnv :: "(string \<times> overpass_data) list \<Rightarrow> (js_error + response) list env" where
  "scriptedEnv docs =
     \<lparr>numToString = (\<lambda>x. ''0''),
      encodeURIComponent = (\<lambda>q. q),
      fetch = (\<lambda>script body.
                 case script of
                   [] \<Rightarrow> (Inl (TypeError ''fetch failed''), [])
                 | r # rest \<Rightarrow> (r, rest)),
      jsonParse = (\<lambda>text.
                     case map_of docs text of
                       Some d \<Rightarrow> Inr d
                     | None \<Rightarrow> Inl (SyntaxError ''Unexpected end of JSON input'')),
      faultMessage = (\<lambda>f. ''engine error''),
      spreadLimit = 100000\<rparr>"

definition startWorld :: "'s \<Rightarrow> 's world" where
  "startWorld s = \<lparr>w_service = s, w_console = [], w_waited = 0\<rparr>"

text \<open>A response with status 200 and the given text, and a document with the given elements.\<close>

definition okResponse :: "string \<Rightarrow> js_error + response" where
  "okResponse text = Inr \<lparr>res_status = 200, res_text = Inr text\<rparr>"

definition document :: "element list \<Rightarrow> overpass_data" where
  "document els = Data (Some (map Some els))"

text \<open>
  The objects among the entries of a list, in order; the roundabout ways among the elements
  that the feature deduplicator keeps, which are the first occurrences of the identities
  with a truthy id; and a list of entries with a \<open>null\<close> entry, or with a kept roundabout way
  that has no \<open>nodes\<close> array.
\<close>

definition objects :: "element option list \<Rightarrow> element list" where
  "objects entries = concat (map (\<lambda>entry. case entry of None \<Rightarrow> [] | Some el \<Rightarrow> [el]) entries)"








text \<open>
  The positions that the node references of a group resolve to, one for each reference, in
  order; and the mean of a list of positions.
\<close>

definition resolved :: "(nat \<rightharpoonup> real \<times> real) \<Rightarrow> element list \<Rightarrow> (real \<times> real) list" where
  "resolved positions ways =
     concat (map (\<lambda>nodeId. case positions nodeId of Some p \<Rightarrow> [p] | None \<Rightarrow> [])
                 (concat (map nodesOf ways)))"

definition meanPosition :: "(real \<times> real) list \<Rightarrow> (real \<times> real) option" where
  "meanPosition ps =
     (if ps = [] then None
      else Some (sum_list (map fst ps) / real (length ps),
                 sum_list (map snd ps) / real (length ps)))"

text \<open>
  The centroid with one contribution for each distinct node id of the group that has a
  position.
\<close>

definition distinctCentroid ::
    "(nat \<rightharpoonup> real \<times> real) \<Rightarrow> element list \<Rightarrow> (real \<times> real) option" where
  "distinctCentroid positions ways =
     meanPosition
       (concat (map (\<lambda>nodeId. case positions nodeId of Some p \<Rightarrow> [p] | None \<Rightarrow> [])
                    (remdups (concat (map nodesOf ways)))))"

text \<open>
  A route of three points along the meridian of Greenwich, one degree apart. Its boxes reach
  from latitude \<open>-0.003\<close> to \<open>1.003\<close>, from \<open>0.997\<close> to \<open>2.003\<close> and from \<open>1.997\<close> to
  \<open>2.003\<close>. A roundabout lies on the route across the northern edge of the first box: its
  nodes 11 and 14 are inside that box, its nodes 12 and 13 just outside, and all four are
  inside the second box. It is drawn as the ways 201 (nodes 11, 12), 202 (nodes 12, 13) and
  203 (nodes 13, 14). A query returns the ways that have a node in one of its boxes, by id,
  and then the nodes of these ways: the three ways for the second box and for the batch,
  ways 201 and 203 for the first box, nothing for the third.
\<close>

definition meridian :: "point list" where
  "meridian = [(0, 0), (0, 1), (0, 2)]"

definition ringNodes :: "element list" where
  "ringNodes =
     [node 11 (10029 / 10000) 0, node 12 (10031 / 10000) 0,
      node 13 (10033 / 10000) 0, node 14 (10027 / 10000) 0]"

definition ringElements :: "element list" where
  "ringElements =
     [roundabout 201 [11, 12], roundabout 202 [12, 13], roundabout 203 [13, 14]] @ ringNodes"

definition edgeElements :: "element list" where
  "edgeElements = [roundabout 201 [11, 12], roundabout 203 [13, 14]] @ ringNodes"

definition ringDocs :: "(string \<times> overpass_data) list" where
  "ringDocs =
     [(''ring'', document ringElements), (''edge'', document edgeElements),
      (''none'', document [])]"

text \<open>
  The script of a run in which the batch query succeeds, and of a run in which it is
  answered with status 429 and the three retries succeed.
\<close>

definition batchScript :: "(js_error + response) list" where
  "batchScript = [okResponse ''ring'']"

definition retryScript :: "(js_error + response) list" where
  "retryScript =
     [Inr \<lparr>res_status = 429, res_text = Inr ''rate limited''\<rparr>,
      okResponse ''edge'', okResponse ''ring'', okResponse ''none'']"






text \<open>
  The point of segment \<open>i\<close> of a route at the parameter \<open>t\<close> (the start of the segment at
  0, its end at 1, its midpoint at \<open>1/2\<close>), as \<open>(lon, lat)\<close>; and a centroid all of whose
  great-circle distances to the points of the route are defined and at least \<open>m\<close> metres.
\<close>

definition pointOn :: "point list \<Rightarrow> nat \<Rightarrow> real \<Rightarrow> point" where
  "pointOn route i t =
     (let (lon1, lat1) = route ! i;
          (lon2, lat2) = route ! (i + 1)
      in (lon1 + t * (lon2 - lon1), lat1 + t * (lat2 - lat1)))"

definition farFrom :: "real \<Rightarrow> real \<Rightarrow> point list \<Rightarrow> real \<Rightarrow> bool" where
  "farFrom centroidLat centroidLon route m \<longleftrightarrow>
     (\<forall>i t. i + 1 < length route \<longrightarrow> 0 \<le> t \<longrightarrow> t \<le> 1 \<longrightarrow>
        (\<exists>d. haversineMeters centroidLat centroidLon
               (snd (pointOn route i t)) (fst (pointOn route i t)) = Some d
             \<and> m \<le> d))"

text \<open>
  The difference of latitude, in degrees, that \<open>haversineMeters\<close> measures as 1000 m; and a
  route of 1000 points that runs east 1000 m south of the equator, turns north at longitude
  1 and goes on north in steps of a thousandth of a degree.
\<close>

definition kmNorth :: real where
  "kmNorth = 180 / (6371 * pi)"

definition hairpin :: "point list" where
  "hairpin =
     [(- 1, - kmNorth), (1, - kmNorth)]
       @ map (\<lambda>k. (1, kmNorth + real k / 1000)) [0 ..< 998]"

section \<open>Loop equations\<close>

text \<open>
  The equation of a loop rewrites the loop into itself, so it is taken out of the simplifier
  and unfolded where a proof needs it.
\<close>

declare segmentsFrom.simps [simp del]
declare string_of_nat.simps [simp del]
declare coarsePass.simps [simp del]
declare finePass.simps [simp del]
declare batchLoop.simps [simp del]

section \<open>Properties of the region segmenter\<close>

lemma segmentSize_pos: "0 < segmentSize coords maxSegments"
  by (simp add: segmentSize_def)

lemma segmentSize_covers:
  assumes "0 < maxSegments"
  shows "length coords \<le> maxSegments * segmentSize coords maxSegments"
proof -
  have "real (length coords) / real maxSegments
          \<le> real_of_int \<lceil>real (length coords) / real maxSegments\<rceil>"
    by (rule le_of_int_ceiling)
  also have "\<dots> \<le> real (segmentSize coords maxSegments)"
    by (simp add: segmentSize_def)
  finally have "real (length coords) \<le> real maxSegments * real (segmentSize coords maxSegments)"
    using assms by (simp add: field_simps)
  then have "real (length coords) \<le> real (maxSegments * segmentSize coords maxSegments)"
    by simp
  then show ?thesis
    by (simp only: of_nat_le_iff)
qed

lemma length_segmentsFrom:
  "length coords \<le> i + k * segmentSize coords maxSegments
     \<Longrightarrow> length (segmentsFrom coords maxSegments i) \<le> k"
proof (induction k arbitrary: i)
  case 0
  then show ?case by (simp add: segmentsFrom.simps)
next
  case (Suc k)
  have "length coords \<le> (i + segmentSize coords maxSegments) + k * segmentSize coords maxSegments"
    using Suc.prems by simp
  then have "length (segmentsFrom coords maxSegments (i + segmentSize coords maxSegments)) \<le> k"
    by (rule Suc.IH)
  then show ?case
    by (subst segmentsFrom.simps) simp
qed

lemma nth_segmentsFrom:
  "k < length (segmentsFrom coords maxSegments i)
     \<Longrightarrow> segmentsFrom coords maxSegments i ! k
           = slice coords (i + k * segmentSize coords maxSegments)
               (i + k * segmentSize coords maxSegments + segmentSize coords maxSegments + 1)
         \<and> i + k * segmentSize coords maxSegments < length coords"
proof (induction k arbitrary: i)
  case 0
  then show ?case
    by (subst segmentsFrom.simps) (auto simp: segmentsFrom.simps split: if_splits)
next
  case (Suc k)
  from Suc.prems have lt: "i < length coords"
    by (subst (asm) segmentsFrom.simps) (auto split: if_splits)
  with Suc.prems
  have "k < length (segmentsFrom coords maxSegments (i + segmentSize coords maxSegments))"
    by (subst (asm) segmentsFrom.simps) simp
  from Suc.IH [OF this] lt show ?case
    by (subst segmentsFrom.simps) (simp add: add.assoc add.left_commute)
qed

lemma joinSegments_segmentsFrom:
  "i < length coords
     \<Longrightarrow> joinSegments (segmentsFrom coords maxSegments i) = drop i coords"
proof (induction coords maxSegments i rule: segmentsFrom.induct)
  case (1 coords maxSegments i)
  let ?s = "segmentSize coords maxSegments"
  have pos: "0 < ?s" by (rule segmentSize_pos)
  show ?case
  proof (cases "i + ?s < length coords")
    case True
    from "1.IH" [OF "1.prems" True]
    have IH: "joinSegments (segmentsFrom coords maxSegments (i + ?s)) = drop (i + ?s) coords" .
    have unfold_next: "segmentsFrom coords maxSegments (i + ?s)
        = slice coords (i + ?s) (i + ?s + ?s + 1) # segmentsFrom coords maxSegments (i + ?s + ?s)"
      using True by (subst segmentsFrom.simps) simp
    have tl_eq: "concat (map tl (segmentsFrom coords maxSegments (i + ?s)))
                   = tl (joinSegments (segmentsFrom coords maxSegments (i + ?s)))"
    proof -
      have "slice coords (i + ?s) (i + ?s + ?s + 1) \<noteq> []"
        using True by (simp add: slice_def)
      then show ?thesis
        by (simp add: unfold_next)
    qed
    have "joinSegments (segmentsFrom coords maxSegments i)
            = slice coords i (i + ?s + 1) @ tl (drop (i + ?s) coords)"
      using "1.prems" by (subst segmentsFrom.simps) (simp add: tl_eq IH)
    also have "\<dots> = take (Suc ?s) (drop i coords) @ drop (Suc ?s) (drop i coords)"
      by (simp add: slice_def drop_Suc tl_drop add.commute)
    also have "\<dots> = drop i coords"
      by (rule append_take_drop_id)
    finally show ?thesis .
  next
    case False
    then have "segmentsFrom coords maxSegments (i + ?s) = []"
      by (subst segmentsFrom.simps) simp
    then have "joinSegments (segmentsFrom coords maxSegments i) = slice coords i (i + ?s + 1)"
      using "1.prems" by (subst segmentsFrom.simps) simp
    also have "\<dots> = drop i coords"
      using False by (simp add: slice_def)
    finally show ?thesis .
  qed
qed

lemma hd_slice: "a < length xs \<Longrightarrow> a < b \<Longrightarrow> hd (slice xs a b) = xs ! a"
  by (simp add: slice_def hd_drop_conv_nth)

lemma last_slice: "a < b \<Longrightarrow> b \<le> length xs \<Longrightarrow> last (slice xs a b) = xs ! (b - 1)"
proof -
  assume a: "a < b" and b: "b \<le> length xs"
  then have len: "length (slice xs a b) = b - a"
    by (simp add: slice_def)
  then have ne: "slice xs a b \<noteq> []"
    using a by auto
  have "last (slice xs a b) = slice xs a b ! (b - a - 1)"
    using ne len by (simp add: last_conv_nth)
  also have "\<dots> = xs ! (b - 1)"
    using a b by (simp add: slice_def)
  finally show ?thesis .
qed

text \<open>
  C6. For a route of at least two points and \<open>maxSegments \<ge> 1\<close>, \<open>computeSegmentBboxes\<close>
  returns at most \<open>maxSegments\<close> boxes, one per slice; slice \<open>k\<close> is
  \<open>coords.slice(k * segmentSize, k * segmentSize + segmentSize + 1)\<close>; the next slice starts at
  the last point of slice \<open>k\<close>; and the slices, joined with the shared points removed, give
  the route back.
\<close>

theorem computeSegmentBboxes_chunks:
  assumes "2 \<le> length coords" and "1 \<le> maxSegments"
  shows "length (computeSegmentBboxes coords maxSegments) \<le> maxSegments
       \<and> computeSegmentBboxes coords maxSegments
           = map segmentBbox (routeSegments coords maxSegments)
       \<and> (\<forall>k < length (routeSegments coords maxSegments).
            routeSegments coords maxSegments ! k
              = slice coords (k * segmentSize coords maxSegments)
                  (k * segmentSize coords maxSegments + segmentSize coords maxSegments + 1))
       \<and> (\<forall>k. Suc k < length (routeSegments coords maxSegments) \<longrightarrow>
            hd (routeSegments coords maxSegments ! Suc k)
              = last (routeSegments coords maxSegments ! k))
       \<and> joinSegments (routeSegments coords maxSegments) = coords"
proof -
  let ?s = "segmentSize coords maxSegments"
  let ?segs = "routeSegments coords maxSegments"
  have segs: "?segs = segmentsFrom coords maxSegments 0"
    using assms(2) by (simp add: routeSegments_def)
  have "length coords \<le> 0 + maxSegments * ?s"
    using segmentSize_covers [of maxSegments coords] assms(2) by simp
  then have count: "length ?segs \<le> maxSegments"
    unfolding segs by (rule length_segmentsFrom)
  have nth: "?segs ! k = slice coords (k * ?s) (k * ?s + ?s + 1) \<and> k * ?s < length coords"
    if "k < length ?segs" for k
    using nth_segmentsFrom [of k coords maxSegments 0] that unfolding segs by simp
  have overlap: "hd (?segs ! Suc k) = last (?segs ! k)" if "Suc k < length ?segs" for k
  proof -
    have k: "?segs ! k = slice coords (k * ?s) (k * ?s + ?s + 1)"
      using nth [of k] that by simp
    have k': "?segs ! Suc k = slice coords (Suc k * ?s) (Suc k * ?s + ?s + 1)"
      and lt: "Suc k * ?s < length coords"
      using nth [OF that] by simp_all
    have "hd (?segs ! Suc k) = coords ! (Suc k * ?s)"
      unfolding k' using lt by (intro hd_slice) simp_all
    moreover have "last (?segs ! k) = coords ! (k * ?s + ?s + 1 - 1)"
      unfolding k using lt by (intro last_slice) simp_all
    ultimately show ?thesis
      by (simp add: add.commute)
  qed
  have "joinSegments ?segs = drop 0 coords"
    unfolding segs using assms(1) by (intro joinSegments_segmentsFrom) auto
  then have join: "joinSegments ?segs = coords"
    by simp
  from count nth overlap join show ?thesis
    by (simp add: computeSegmentBboxes_def)
qed

theorem computeSegmentBboxes_chunks_witness:
  "2 \<le> length ([(0, 0), (1, 0), (2, 0)] :: point list) \<and> (1 :: nat) \<le> 2
   \<and> routeSegments ([(0, 0), (1, 0), (2, 0)] :: point list) 2
       = [[(0, 0), (1, 0), (2, 0)], [(2, 0)]]
   \<and> length (computeSegmentBboxes [(0, 0), (1, 0), (2, 0)] 2) \<le> 2
   \<and> joinSegments (routeSegments ([(0, 0), (1, 0), (2, 0)] :: point list) 2)
       = [(0, 0), (1, 0), (2, 0)]"
proof -
  have size: "segmentSize ([(0, 0), (1, 0), (2, 0)] :: point list) 2 = 2"
    by (simp add: segmentSize_def)
  have segs: "routeSegments ([(0, 0), (1, 0), (2, 0)] :: point list) 2
                = [[(0, 0), (1, 0), (2, 0)], [(2, 0)]]"
    by (simp add: routeSegments_def segmentsFrom.simps size slice_def)
  show ?thesis
    using computeSegmentBboxes_chunks [of "[(0, 0), (1, 0), (2, 0)]" 2] segs
    by simp
qed

section \<open>Properties of the junction grouper\<close>

lemma isRoundaboutWay_roundabout: "isRoundaboutWay (roundabout i ns)"
  by (simp add: isRoundaboutWay_def roundabout_def junction_def)

lemma roundabout_fields:
  "el_nodes (roundabout i ns) = Some ns" "el_id (roundabout i ns) = i"
  "nodesOf (roundabout i ns) = ns"
  by (simp_all add: roundabout_def nodesOf_def)

lemma roundabout_eq_iff: "roundabout i ns = roundabout j ms \<longleftrightarrow> i = j \<and> ns = ms"
  by (auto simp: roundabout_def)

lemma group_late_bridge:
  "deduplicateRoundabouts
     [roundabout 101 [11, 12], roundabout 102 [13, 14], roundabout 103 [12, 13]]
     = Inr [(Some 0, [roundabout 101 [11, 12], roundabout 103 [12, 13]]),
            (Some 1, [roundabout 102 [13, 14]])]"
  by (simp add: deduplicateRoundabouts_def groupStep_def grouping_init_def setNodes_def
      collectStep_def isRoundaboutWay_roundabout roundabout_fields)

lemma group_early_bridge:
  "deduplicateRoundabouts
     [roundabout 101 [11, 12], roundabout 103 [12, 13], roundabout 102 [13, 14]]
     = Inr [(Some 0,
             [roundabout 101 [11, 12], roundabout 103 [12, 13], roundabout 102 [13, 14]])]"
  by (simp add: deduplicateRoundabouts_def groupStep_def grouping_init_def setNodes_def
      collectStep_def isRoundaboutWay_roundabout roundabout_fields)

text \<open>
  C2. The grouping is not the transitive node-sharing partition. Take the ways 101 (nodes
  11, 12), 102 (nodes 13, 14) and 103 (nodes 12, 13), in this order. Way 103 shares node 12
  with way 101 and node 13 with way 102, so the three ways are one chain. The loop puts way
  103 into the group of way 101, the first group it finds, and leaves way 102 in a group of
  its own: ways 102 and 103 share a node and are in different groups of the result.
\<close>

theorem deduplicateRoundabouts_splits_chain:
  "deduplicateRoundabouts
     [roundabout 101 [11, 12], roundabout 102 [13, 14], roundabout 103 [12, 13]]
     = Inr [(Some 0, [roundabout 101 [11, 12], roundabout 103 [12, 13]]),
            (Some 1, [roundabout 102 [13, 14]])]
   \<and> sharesNode (roundabout 101 [11, 12]) (roundabout 103 [12, 13])
   \<and> sharesNode (roundabout 103 [12, 13]) (roundabout 102 [13, 14])
   \<and> \<not> sameGroup
         [(Some 0, [roundabout 101 [11, 12], roundabout 103 [12, 13]]),
          (Some 1, [roundabout 102 [13, 14]])]
         (roundabout 103 [12, 13]) (roundabout 102 [13, 14])"
  apply (simp only: group_late_bridge)
  apply (simp add: sameGroup_def sharesNode_def roundabout_fields roundabout_eq_iff)
  done

text \<open>
  C3. The grouping depends on the order of the ways. The same three ways give two groups
  when the way that joins the other two comes last, and one group when it comes second.
\<close>

theorem deduplicateRoundabouts_order_dependent:
  "set [roundabout 101 [11, 12], roundabout 103 [12, 13], roundabout 102 [13, 14]]
     = set [roundabout 101 [11, 12], roundabout 102 [13, 14], roundabout 103 [12, 13]]
   \<and> deduplicateRoundabouts
         [roundabout 101 [11, 12], roundabout 102 [13, 14], roundabout 103 [12, 13]]
       = Inr [(Some 0, [roundabout 101 [11, 12], roundabout 103 [12, 13]]),
              (Some 1, [roundabout 102 [13, 14]])]
   \<and> deduplicateRoundabouts
         [roundabout 101 [11, 12], roundabout 103 [12, 13], roundabout 102 [13, 14]]
       = Inr [(Some 0,
               [roundabout 101 [11, 12], roundabout 103 [12, 13], roundabout 102 [13, 14]])]
   \<and> partitionOf [(Some 0, [roundabout 101 [11, 12], roundabout 103 [12, 13]]),
                   (Some 1, [roundabout 102 [13, 14]])]
       \<noteq> partitionOf
           [(Some 0,
             [roundabout 101 [11, 12], roundabout 103 [12, 13], roundabout 102 [13, 14]])]"
proof -
  let ?A = "roundabout 101 [11, 12]" and ?B = "roundabout 102 [13, 14]"
    and ?C = "roundabout 103 [12, 13]"
  have 1: "{?B} \<noteq> {?A, ?C, ?B}"
    by (auto simp: roundabout_eq_iff)
  have "?B \<notin> {?A, ?C}"
    by (simp add: roundabout_eq_iff)
  then have 2: "{?A, ?C} \<noteq> {?A, ?C, ?B}"
    by blast
  have "{{?A, ?C}, {?B}} \<noteq> {{?A, ?C, ?B}}"
    using 1 2 by blast
  then show ?thesis
    apply (simp only: group_late_bridge group_early_bridge partitionOf_def)
    apply auto
    done
qed







section \<open>Properties of the feature deduplicator\<close>

lemma lt10_cases: "d < (10::nat) \<Longrightarrow> d \<in> {0, 1, 2, 3, 4, 5, 6, 7, 8, 9}"
  by auto

lemma digit_not_dash: "d < 10 \<Longrightarrow> digit d \<noteq> CHR ''-''"
  by (drule lt10_cases) (auto simp: digit_def)

lemma digit_inj: "d < 10 \<Longrightarrow> d' < 10 \<Longrightarrow> digit d = digit d' \<Longrightarrow> d = d'"
  by (drule lt10_cases, drule lt10_cases) (auto simp: digit_def)

lemma string_of_nat_nonempty: "string_of_nat n \<noteq> []"
  by (subst string_of_nat.simps) simp

lemma string_of_nat_no_dash: "CHR ''-'' \<notin> set (string_of_nat n)"
proof (induction n rule: string_of_nat.induct)
  case (1 n)
  show ?case
  proof (cases "n < 10")
    case True
    then show ?thesis
      using digit_not_dash [of n] by (subst string_of_nat.simps) auto
  next
    case False
    then show ?thesis
      using "1.IH" digit_not_dash [of "n mod 10"] by (subst string_of_nat.simps) auto
  qed
qed

lemma string_of_nat_inj: "string_of_nat m = string_of_nat n \<Longrightarrow> m = n"
proof (induction m arbitrary: n rule: string_of_nat.induct)
  case (1 m)
  show ?case
  proof (cases "m < 10")
    case m: True
    show ?thesis
    proof (cases "n < 10")
      case True
      with m "1.prems" show ?thesis
        by (simp add: string_of_nat.simps [of m] string_of_nat.simps [of n] digit_inj)
    next
      case False
      with m "1.prems" show ?thesis
        using string_of_nat_nonempty [of "n div 10"]
        by (simp add: string_of_nat.simps [of m] string_of_nat.simps [of n])
    qed
  next
    case m: False
    show ?thesis
    proof (cases "n < 10")
      case True
      with m "1.prems" show ?thesis
        using string_of_nat_nonempty [of "m div 10"]
        by (simp add: string_of_nat.simps [of m] string_of_nat.simps [of n])
    next
      case False
      with m "1.prems"
      have eq: "string_of_nat (m div 10) = string_of_nat (n div 10)"
        and dg: "digit (m mod 10) = digit (n mod 10)"
        by (simp_all add: string_of_nat.simps [of m] string_of_nat.simps [of n])
      from "1.IH" [OF m eq] have "m div 10 = n div 10" .
      moreover from dg have "m mod 10 = n mod 10"
        by (intro digit_inj) simp_all
      ultimately show ?thesis
        by (metis div_mult_mod_eq)
    qed
  qed
qed

lemma split_at_last:
  assumes "c \<notin> set s1" and "c \<notin> set s2" and "t1 @ c # s1 = t2 @ c # s2"
  shows "t1 = t2 \<and> s1 = s2"
proof -
  have tw: "takeWhile (\<lambda>x. x \<noteq> c) (rev s @ c # r) = rev s" if "c \<notin> set s" for s r
    using that by (auto simp: takeWhile_tail takeWhile_eq_all_conv)
  from assms(3) have "rev (t1 @ c # s1) = rev (t2 @ c # s2)"
    by simp
  then have eq: "rev s1 @ c # rev t1 = rev s2 @ c # rev t2"
    by simp
  then have "takeWhile (\<lambda>x. x \<noteq> c) (rev s1 @ c # rev t1)
               = takeWhile (\<lambda>x. x \<noteq> c) (rev s2 @ c # rev t2)"
    by simp
  then have "rev s1 = rev s2"
    using tw [OF assms(1)] tw [OF assms(2)] by metis
  then have s: "s1 = s2"
    by simp
  with assms(3) show ?thesis
    by simp
qed

lemma featureKey_eq_iff: "featureKey a = featureKey b \<longleftrightarrow> identity a = identity b"
proof
  assume "featureKey a = featureKey b"
  then have "el_type a @ CHR ''-'' # string_of_nat (el_id a)
               = el_type b @ CHR ''-'' # string_of_nat (el_id b)"
    by (simp add: featureKey_def)
  then have "el_type a = el_type b \<and> string_of_nat (el_id a) = string_of_nat (el_id b)"
    by (rule split_at_last [OF string_of_nat_no_dash string_of_nat_no_dash])
  then show "identity a = identity b"
    by (auto simp: identity_def dest: string_of_nat_inj)
next
  assume "identity a = identity b"
  then show "featureKey a = featureKey b"
    by (simp add: identity_def featureKey_def)
qed

lemma map_of_featureKey:
  assumes "\<forall>(k, e) \<in> set m. k = featureKey e"
  shows "map_of m (featureKey el) = None \<longleftrightarrow> identity el \<notin> identity ` snd ` set m"
proof -
  have "map_of m (featureKey el) = None \<longleftrightarrow> featureKey el \<notin> fst ` set m"
    by (simp add: map_of_eq_None_iff)
  also have "fst ` set m = featureKey ` snd ` set m"
    using assms by (force simp: image_iff)
  also have "featureKey el \<notin> featureKey ` snd ` set m
               \<longleftrightarrow> identity el \<notin> identity ` snd ` set m"
    by (auto simp: image_iff featureKey_eq_iff)
  finally show ?thesis .
qed

lemma objects_simps:
  "objects [] = []" "objects (Some el # entries) = el # objects entries"
  "objects (None # entries) = objects entries"
  by (simp_all add: objects_def)

lemma objects_map_Some: "objects (map Some els) = els"
  by (induction els) (simp_all add: objects_simps)

lemma uniqueStep_simps:
  "uniqueStep m None = Inl (Raised (PropertyOfNull ''id''))"
  "uniqueStep m (Some el)
     = Inr (if el_id el \<noteq> 0 \<and> map_of m (featureKey el) = None
            then m @ [(featureKey el, el)] else m)"
  by (simp_all add: uniqueStep_def)

lemma forOf_uniqueStep:
  assumes "\<forall>(k, e) \<in> set m. k = featureKey e" and "None \<notin> set entries"
  shows "\<exists>m'. forOf uniqueStep m entries = Inr m'
           \<and> map snd m' = map snd m @ firstOccurrences (identity ` snd ` set m)
                                      (filter (\<lambda>el. el_id el \<noteq> 0) (objects entries))"
  using assms
proof (induction entries arbitrary: m)
  case Nil
  then show ?case by (simp add: objects_simps)
next
  case (Cons entry entries)
  from Cons.prems(2) obtain el where entry: "entry = Some el" and rest: "None \<notin> set entries"
    by (cases entry) auto
  show ?case
  proof (cases "el_id el \<noteq> 0 \<and> map_of m (featureKey el) = None")
    case True
    then have new: "identity el \<notin> identity ` snd ` set m"
      using map_of_featureKey [OF Cons.prems(1)] by simp
    have inv: "\<forall>(k, e) \<in> set (m @ [(featureKey el, el)]). k = featureKey e"
      using Cons.prems(1) by auto
    have "identity ` snd ` set (m @ [(featureKey el, el)])
            = insert (identity el) (identity ` snd ` set m)"
      by auto
    with Cons.IH [OF inv rest] True new show ?thesis
      by (simp add: uniqueStep_simps entry objects_simps)
  next
    case False
    then have "el_id el = 0 \<or> identity el \<in> identity ` snd ` set m"
      using map_of_featureKey [OF Cons.prems(1)] by auto
    with Cons.IH [OF Cons.prems(1) rest] False show ?thesis
      by (auto simp: uniqueStep_simps entry objects_simps)
  qed
qed

lemma forOf_uniqueStep_null:
  "None \<in> set entries \<Longrightarrow> forOf uniqueStep m entries = Inl (Raised (PropertyOfNull ''id''))"
proof (induction entries arbitrary: m)
  case Nil
  then show ?case by simp
next
  case (Cons entry entries)
  show ?case
  proof (cases entry)
    case None
    then show ?thesis
      by (simp add: uniqueStep_simps)
  next
    case (Some el)
    with Cons.prems have "None \<in> set entries"
      by simp
    from Cons.IH [OF this] Some show ?thesis
      by (simp add: uniqueStep_simps)
  qed
qed

lemma uniqueElements_eq:
  "None \<notin> set entries \<Longrightarrow>
   uniqueElements entries
     = Inr (firstOccurrences {} (filter (\<lambda>el. el_id el \<noteq> 0) (objects entries)))"
  using forOf_uniqueStep [of "[]" entries] by (auto simp: uniqueElements_def)

lemma uniqueElements_null:
  "None \<in> set entries \<Longrightarrow> uniqueElements entries = Inl (Raised (PropertyOfNull ''id''))"
  by (simp add: uniqueElements_def forOf_uniqueStep_null)

lemma firstOccurrences_fresh:
  "el \<in> set (firstOccurrences seen els) \<Longrightarrow> identity el \<notin> seen"
  by (induction els arbitrary: seen) (auto split: if_splits)

lemma distinct_firstOccurrences: "distinct (map identity (firstOccurrences seen els))"
proof (induction els arbitrary: seen)
  case Nil
  then show ?case by simp
next
  case (Cons el els)
  have "identity el \<notin> identity ` set (firstOccurrences (insert (identity el) seen) els)"
  proof
    assume "identity el \<in> identity ` set (firstOccurrences (insert (identity el) seen) els)"
    then obtain x where x: "x \<in> set (firstOccurrences (insert (identity el) seen) els)"
      and eq: "identity el = identity x"
      by blast
    from firstOccurrences_fresh [OF x] eq show False
      by simp
  qed
  with Cons.IH show ?case by simp
qed

text \<open>
  C7. The deduplication step throws when an entry of the list is \<open>null\<close>. On a list of
  features it drops every element whose id is falsy (\<open>0\<close>); of the other elements it keeps,
  in order, the first occurrence of each identity \<open>(type, id)\<close> and discards the later ones,
  so its output holds each identity at most once.
\<close>

theorem uniqueElements_first_occurrences:
  "uniqueElements entries
     = (if None \<in> set entries then Inl (Raised (PropertyOfNull ''id''))
        else Inr (firstOccurrences {} (filter (\<lambda>el. el_id el \<noteq> 0) (objects entries))))
   \<and> uniqueElements (map Some allElements)
     = Inr (firstOccurrences {} (filter (\<lambda>el. el_id el \<noteq> 0) allElements))
   \<and> distinct (map identity
         (firstOccurrences {} (filter (\<lambda>el. el_id el \<noteq> 0) allElements)))"
proof (intro conjI)
  show "uniqueElements entries
     = (if None \<in> set entries then Inl (Raised (PropertyOfNull ''id''))
        else Inr (firstOccurrences {} (filter (\<lambda>el. el_id el \<noteq> 0) (objects entries))))"
    by (simp add: uniqueElements_eq uniqueElements_null)
  have "None \<notin> set (map Some allElements)"
    by auto
  from uniqueElements_eq [OF this]
  show "uniqueElements (map Some allElements)
     = Inr (firstOccurrences {} (filter (\<lambda>el. el_id el \<noteq> 0) allElements))"
    unfolding objects_map_Some .
  show "distinct (map identity
         (firstOccurrences {} (filter (\<lambda>el. el_id el \<noteq> 0) allElements)))"
    by (rule distinct_firstOccurrences)
qed

text \<open>
  An element with id \<open>0\<close> is not kept, although it is the first occurrence of its identity;
  and a list with a \<open>null\<close> entry has no output.
\<close>

theorem uniqueElements_drops_falsy_id:
  "uniqueElements [Some (node 0 1 1)] = Inr []
   \<and> firstOccurrences {} [node 0 1 1] = [node 0 1 1]
   \<and> uniqueElements [Some (node 7 1 1), None] = Inl (Raised (PropertyOfNull ''id''))"
  by (simp add: uniqueElements_def uniqueStep_def node_def)

section \<open>Properties of the proximity filter\<close>

lemma sampleStep_pos: "0 < sampleStep routeCoords"
  by (simp add: sampleStep_def)

lemma x_lt_update:
  "\<not> x_lt minDist m \<Longrightarrow> x_lt (if lt_x d minDist then Finite d else minDist) m \<longleftrightarrow> d < m"
  by (cases minDist) auto

lemma coarsePass_iff:
  "\<not> x_lt minDist m \<Longrightarrow>
   coarsePass clat clon route m i minDist \<longleftrightarrow>
     (\<exists>n. i + n * sampleStep route + 1 < length route
          \<and> coarseKept clat clon route (i + n * sampleStep route)
          \<and> (\<exists>d. coarseDist clat clon route (i + n * sampleStep route) = Some d \<and> d < m))"
proof (induction clat clon route m i minDist rule: coarsePass.induct)
  case (1 clat clon route m i minDist)
  let ?s = "sampleStep route"
  let ?hit = "\<lambda>k. k + 1 < length route \<and> coarseKept clat clon route k
                 \<and> (\<exists>d. coarseDist clat clon route k = Some d \<and> d < m)"
  have shift: "(\<exists>n. ?hit (i + n * ?s)) \<longleftrightarrow> ?hit i \<or> (\<exists>n. ?hit (i + ?s + n * ?s))"
  proof
    assume "\<exists>n. ?hit (i + n * ?s)"
    then obtain n where n: "?hit (i + n * ?s)" ..
    show "?hit i \<or> (\<exists>n. ?hit (i + ?s + n * ?s))"
    proof (cases n)
      case 0
      with n show ?thesis by simp
    next
      case (Suc n')
      with n have "?hit (i + ?s + n' * ?s)"
        by (simp add: add.assoc)
      then show ?thesis by blast
    qed
  next
    assume "?hit i \<or> (\<exists>n. ?hit (i + ?s + n * ?s))"
    then show "\<exists>n. ?hit (i + n * ?s)"
    proof
      assume "?hit i"
      then have "?hit (i + 0 * ?s)" by simp
      then show ?thesis by blast
    next
      assume "\<exists>n. ?hit (i + ?s + n * ?s)"
      then obtain n where "?hit (i + ?s + n * ?s)" ..
      then have "?hit (i + Suc n * ?s)"
        by (simp add: add.assoc)
      then show ?thesis by blast
    qed
  qed
  show ?case
  proof (cases "i + 1 < length route")
    case False
    then have "\<not> ?hit (i + n * ?s)" for n
      by simp
    with False show ?thesis
      by (subst coarsePass.simps) simp
  next
    case inside: True
    show ?thesis
    proof (cases "coarseKept clat clon route i")
      case False
      with inside "1.IH"(1) [OF inside _ "1.prems"] shift show ?thesis
        by (subst coarsePass.simps) simp
    next
      case kept: True
      let ?md = "case coarseDist clat clon route i of
                   None \<Rightarrow> minDist
                 | Some d \<Rightarrow> if lt_x d minDist then Finite d else minDist"
      have IH2: "coarsePass clat clon route m (i + ?s) ?md \<longleftrightarrow> (\<exists>n. ?hit (i + ?s + n * ?s))"
        if "\<not> x_lt ?md m"
        using "1.IH"(2) [OF inside _ refl that that] kept by simp
      have unfold: "coarsePass clat clon route m i minDist
                      \<longleftrightarrow> x_lt ?md m \<or> coarsePass clat clon route m (i + ?s) ?md"
        using inside kept by (subst coarsePass.simps) (auto simp: Let_def)
      have now: "x_lt ?md m \<longleftrightarrow> (\<exists>d. coarseDist clat clon route i = Some d \<and> d < m)"
        using "1.prems" by (cases "coarseDist clat clon route i") (simp_all add: x_lt_update)
      show ?thesis
      proof (cases "x_lt ?md m")
        case True
        with unfold now shift inside kept show ?thesis
          by blast
      next
        case False
        with unfold now shift inside kept IH2 [OF False] show ?thesis
          by blast
      qed
    qed
  qed
qed

lemma finePass_iff:
  "finePass clat clon route m i \<longleftrightarrow>
     (\<exists>k\<ge>i. k + 1 < length route \<and> fineKept clat clon route k
             \<and> approxMeters clat clon route k < m)"
proof (induction clat clon route m i rule: finePass.induct)
  case (1 clat clon route m i)
  let ?hit = "\<lambda>k. k + 1 < length route \<and> fineKept clat clon route k
                 \<and> approxMeters clat clon route k < m"
  have shift: "(\<exists>k\<ge>i. ?hit k) \<longleftrightarrow> ?hit i \<or> (\<exists>k\<ge>i + 1. ?hit k)"
    by (metis Suc_eq_plus1 Suc_leI le_neq_implies_less order_refl Suc_leD)
  show ?case
  proof (cases "i + 1 < length route")
    case False
    then have "\<not> ?hit k" if "i \<le> k" for k
      using that by simp
    with False show ?thesis
      by (subst finePass.simps) auto
  next
    case inside: True
    show ?thesis
    proof (cases "fineKept clat clon route i")
      case False
      with inside "1.IH"(1) [OF inside] shift show ?thesis
        by (subst finePass.simps) auto
    next
      case kept: True
      show ?thesis
      proof (cases "approxMeters clat clon route i < m")
        case True
        with inside kept shift show ?thesis
          by (subst finePass.simps) auto
      next
        case False
        with inside kept "1.IH"(2) [OF inside _ False] shift show ?thesis
          by (subst finePass.simps) auto
      qed
    qed
  qed
qed

lemma coarseTurns_iff:
  "k \<in> set (coarseTurns route) \<longleftrightarrow> (\<exists>n. k = n * sampleStep route \<and> k + 1 < length route)"
  by (auto simp: coarseTurns_def mod_eq_0_iff_dvd dvd_def mult.commute)

lemma coarseDists_iff:
  "d \<in> set (coarseDists clat clon route) \<longleftrightarrow>
     (\<exists>k \<in> set (coarseTurns route). coarseKept clat clon route k
          \<and> coarseDist clat clon route k = Some d)"
proof -
  have one: "d \<in> set (if coarseKept clat clon route k
                        then (case coarseDist clat clon route k of Some d \<Rightarrow> [d] | None \<Rightarrow> [])
                        else [])
               \<longleftrightarrow> coarseKept clat clon route k \<and> coarseDist clat clon route k = Some d" for k
    by (cases "coarseKept clat clon route k"; cases "coarseDist clat clon route k") auto
  show ?thesis
    by (simp add: coarseDists_def one) (metis IntE IntI mem_Collect_eq)
qed

lemma fineDists_iff:
  "d \<in> set (fineDists clat clon route) \<longleftrightarrow>
     (\<exists>k. k + 1 < length route \<and> fineKept clat clon route k
          \<and> approxMeters clat clon route k = d)"
proof -
  have "k < length route - 1 \<longleftrightarrow> k + 1 < length route" for k
    by auto
  then show ?thesis
    by (auto simp: fineDists_def image_iff)
qed

lemma isNearRoute_iff:
  "isNearRoute clat clon route m \<longleftrightarrow>
     (\<exists>d \<in> set (coarseDists clat clon route) \<union> set (fineDists clat clon route). d < m)"
proof -
  have coarse: "coarsePass clat clon route m 0 PosInfinity
                  \<longleftrightarrow> (\<exists>d \<in> set (coarseDists clat clon route). d < m)"
  proof -
    have "coarsePass clat clon route m 0 PosInfinity \<longleftrightarrow>
            (\<exists>n. 0 + n * sampleStep route + 1 < length route
                 \<and> coarseKept clat clon route (0 + n * sampleStep route)
                 \<and> (\<exists>d. coarseDist clat clon route (0 + n * sampleStep route) = Some d \<and> d < m))"
      by (rule coarsePass_iff) simp
    also have "\<dots> \<longleftrightarrow> (\<exists>k \<in> set (coarseTurns route). coarseKept clat clon route k
                 \<and> (\<exists>d. coarseDist clat clon route k = Some d \<and> d < m))"
      by (simp add: coarseTurns_iff Bex_def) blast
    also have "\<dots> \<longleftrightarrow> (\<exists>d \<in> set (coarseDists clat clon route). d < m)"
      by (simp add: coarseDists_iff Bex_def) blast
    finally show ?thesis .
  qed
  have fine: "finePass clat clon route m 0
                \<longleftrightarrow> (\<exists>d \<in> set (fineDists clat clon route). d < m)"
    by (simp add: finePass_iff fineDists_iff Bex_def) blast
  show ?thesis
    unfolding isNearRoute_def using coarse fine by auto
qed

lemma haversineA_le_1: "haversineA lat1 lon1 lat2 lon2 \<le> 1"
proof -
  let ?x = "toRad (lat2 - lat1) / 2" and ?y = "toRad (lon2 - lon1) / 2"
  let ?s1 = "(sin ?x)\<^sup>2" and ?s2 = "(sin ?y)\<^sup>2"
  let ?c = "cos (toRad lat1) * cos (toRad lat2)"
  have diff: "toRad lat1 - toRad lat2 = - (2 * ?x)"
    by (simp add: toRad_def field_simps)
  have "?c = (cos (toRad lat1 - toRad lat2) + cos (toRad lat1 + toRad lat2)) / 2"
    by (rule cos_times_cos)
  also have "\<dots> \<le> (cos (toRad lat1 - toRad lat2) + 1) / 2"
    by simp
  also have "cos (toRad lat1 - toRad lat2) = 1 - 2 * ?s1"
    unfolding diff cos_minus by (rule cos_double_sin)
  finally have c: "?c \<le> 1 - ?s1"
    by simp
  have s2: "0 \<le> ?s2" "?s2 \<le> 1"
    by (simp_all add: abs_square_le_1)
  have s1: "?s1 \<le> 1"
    by (simp add: abs_square_le_1)
  have "?c * ?s2 \<le> (1 - ?s1) * ?s2"
    using c s2(1) by (rule mult_right_mono)
  also have "\<dots> \<le> (1 - ?s1) * 1"
    using s1 s2(2) by (intro mult_left_mono) simp_all
  finally show ?thesis
    by (simp add: haversineA_def)
qed

lemma atan2_sqrt:
  assumes "0 \<le> a" and "a \<le> 1"
  shows "atan2 (sqrt a) (sqrt (1 - a)) = arcsin (sqrt a)"
proof (cases "a = 1")
  case True
  then show ?thesis by (simp add: atan2_def)
next
  case False
  with assms have lt: "a < 1" by simp
  then have pos: "0 < sqrt (1 - a)" by simp
  have "sqrt a < 1"
    using lt assms(1) by (simp add: real_sqrt_lt_1_iff)
  moreover have "- 1 < sqrt a"
  proof -
    have "0 \<le> sqrt a" using assms(1) by simp
    then show ?thesis by linarith
  qed
  ultimately have "arcsin (sqrt a) = arctan (sqrt a / sqrt (1 - (sqrt a)\<^sup>2))"
    by (intro arcsin_arctan)
  with assms(1) pos show ?thesis
    by (simp add: atan2_def)
qed

lemma haversineMeters_arcsin:
  "haversineMeters lat1 lon1 lat2 lon2 =
     (if haversineA lat1 lon1 lat2 lon2 < 0 then None
      else Some (6371000 * 2 * arcsin (sqrt (haversineA lat1 lon1 lat2 lon2))))"
proof -
  have le: "haversineA lat1 lon1 lat2 lon2 \<le> 1"
    by (rule haversineA_le_1)
  have unfold: "haversineMeters lat1 lon1 lat2 lon2 =
          (if haversineA lat1 lon1 lat2 lon2 < 0 \<or> 1 - haversineA lat1 lon1 lat2 lon2 < 0
           then None
           else Some (6371000 * 2 * atan2 (sqrt (haversineA lat1 lon1 lat2 lon2))
                                     (sqrt (1 - haversineA lat1 lon1 lat2 lon2))))"
    by (simp add: haversineMeters_def haversineA_def Let_def)
  show ?thesis
    unfolding unfold using le by (auto simp: atan2_sqrt)
qed

lemma abs_sin_small: "\<bar>x\<bar> \<le> pi \<Longrightarrow> \<bar>sin x\<bar> = sin \<bar>x\<bar>"
proof (cases "0 \<le> x")
  case True
  assume "\<bar>x\<bar> \<le> pi"
  with True show ?thesis by (simp add: sin_ge_zero)
next
  case False
  assume "\<bar>x\<bar> \<le> pi"
  with False have "0 \<le> sin (- x)"
    by (intro sin_ge_zero) simp_all
  with False show ?thesis by simp
qed

lemma haversineMeters_same_lon:
  assumes "\<bar>lat2 - lat1\<bar> \<le> 180"
  shows "haversineMeters lat1 lon lat2 lon = Some (6371000 * \<bar>lat2 - lat1\<bar> * pi / 180)"
proof -
  let ?x = "toRad (lat2 - lat1) / 2"
  have x: "\<bar>?x\<bar> \<le> pi / 2"
  proof -
    have "\<bar>?x\<bar> = \<bar>lat2 - lat1\<bar> * pi / 360"
      by (simp add: toRad_def abs_mult)
    also have "\<dots> \<le> 180 * pi / 360"
      using assms by (intro divide_right_mono mult_right_mono) simp_all
    finally show ?thesis by simp
  qed
  have a: "haversineA lat1 lon lat2 lon = (sin ?x)\<^sup>2"
    by (simp add: haversineA_def toRad_def)
  have "arcsin (sqrt ((sin ?x)\<^sup>2)) = arcsin (sin \<bar>?x\<bar>)"
    using x by (simp add: abs_sin_small)
  also have "\<dots> = \<bar>?x\<bar>"
    using x by (intro arcsin_sin) simp_all
  also have "\<dots> = \<bar>lat2 - lat1\<bar> * pi / 360"
    by (simp add: toRad_def abs_mult)
  finally have "arcsin (sqrt ((sin ?x)\<^sup>2)) = \<bar>lat2 - lat1\<bar> * pi / 360" .
  then have "6371000 * 2 * arcsin (sqrt ((sin ?x)\<^sup>2)) = 6371000 * \<bar>lat2 - lat1\<bar> * pi / 180"
    by (simp add: field_simps)
  then show ?thesis
    unfolding haversineMeters_arcsin a by simp
qed

text \<open>
  C10. The threshold is exclusive. Both loops accept on a strict \<open><\<close> only, so when the
  least of the distances that the two loops compute for a centroid is exactly the threshold,
  neither loop accepts, \<open>isNearRoute\<close> returns \<open>false\<close>, and with the threshold of 50 m
  that \<open>countRoundabouts\<close> passes the group is not counted.
\<close>

theorem isNearRoute_threshold_exclusive:
  assumes "coarseDists clat clon route @ fineDists clat clon route \<noteq> []"
    and "Min (set (coarseDists clat clon route @ fineDists clat clon route)) = maxDistMeters"
  shows "\<not> coarsePass clat clon route maxDistMeters 0 PosInfinity
       \<and> \<not> finePass clat clon route maxDistMeters 0
       \<and> \<not> isNearRoute clat clon route maxDistMeters
       \<and> (maxDistMeters = 50 \<longrightarrow> centroid positions ways = Inr (Some (clat, clon)) \<longrightarrow>
            nearStep positions route nearCount (gid, ways) = Inr nearCount)"
proof -
  let ?ds = "coarseDists clat clon route @ fineDists clat clon route"
  have ge: "maxDistMeters \<le> d" if "d \<in> set ?ds" for d
  proof -
    have "Min (set ?ds) \<le> d"
      using that by (intro Min_le) simp_all
    with assms(2) show ?thesis by simp
  qed
  then have "\<not> (\<exists>d \<in> set (coarseDists clat clon route) \<union> set (fineDists clat clon route).
                  d < maxDistMeters)"
    by (auto simp: not_less)
  then have no: "\<not> isNearRoute clat clon route maxDistMeters"
    unfolding isNearRoute_iff by simp
  then have passes: "\<not> coarsePass clat clon route maxDistMeters 0 PosInfinity"
    "\<not> finePass clat clon route maxDistMeters 0"
    by (auto simp: isNearRoute_def split: if_splits)
  from no passes show ?thesis
    by (auto simp: nearStep_def)
qed

text \<open>
  A centroid at latitude 60 and a route that stays at one point \<open>100 / 111320\<close> degrees to
  the north: the second loop computes exactly 50 m, the first loop a larger distance.
\<close>

lemma coarseDists_boundary:
  "coarseDists 60 0 [(0, 60 + 100 / 111320), (0, 60 + 100 / 111320)]
     = [6371000 * (100 / 111320) * pi / 180]"
proof -
  have "haversineMeters 60 0 (60 + 100 / 111320) 0
          = Some (6371000 * \<bar>(60 + 100 / 111320) - 60\<bar> * pi / 180)"
    by (rule haversineMeters_same_lon) simp
  then have "haversineMeters 60 0 (60 + 100 / 111320) 0 = Some (6371000 * (100 / 111320) * pi / 180)"
    by simp
  then show ?thesis
    by (simp add: coarseDists_def coarseTurns_def sampleStep_def coarseKept_def coarseDist_def)
qed

lemma fineDists_boundary:
  "fineDists 60 0 [(0, 60 + 100 / 111320), (0, 60 + 100 / 111320)] = [50]"
proof -
  have "cos (60 * pi / 180) = 1 / 2"
    using cos_60 by simp
  then show ?thesis
    by (simp add: fineDists_def fineKept_def approxMeters_def distToSegment_def hypot_def)
qed

theorem isNearRoute_threshold_exclusive_witness:
  "coarseDists 60 0 [(0, 60 + 100 / 111320), (0, 60 + 100 / 111320)]
     @ fineDists 60 0 [(0, 60 + 100 / 111320), (0, 60 + 100 / 111320)]
     = [6371000 * (100 / 111320) * pi / 180, 50]
   \<and> Min (set (coarseDists 60 0 [(0, 60 + 100 / 111320), (0, 60 + 100 / 111320)]
                @ fineDists 60 0 [(0, 60 + 100 / 111320), (0, 60 + 100 / 111320)])) = 50
   \<and> \<not> isNearRoute 60 0 [(0, 60 + 100 / 111320), (0, 60 + 100 / 111320)] 50"
proof -
  have "(50 :: real) \<le> 6371000 * (100 / 111320) * 2 / 180"
    by simp
  also have "\<dots> \<le> 6371000 * (100 / 111320) * pi / 180"
    using pi_ge_two by (intro divide_right_mono mult_left_mono) simp_all
  finally have "min (6371000 * (100 / 111320) * pi / 180) 50 = (50 :: real)"
    by simp
  then have m: "Min (set [6371000 * (100 / 111320) * pi / 180, 50 :: real]) = 50"
    by simp
  show ?thesis
    using isNearRoute_threshold_exclusive
      [of 60 0 "[(0, 60 + 100 / 111320), (0, 60 + 100 / 111320)]" 50] m
    by (simp only: coarseDists_boundary fineDists_boundary append_Cons append_Nil) simp
qed

lemma sin_lower:
  fixes x :: real
  assumes "0 \<le> x"
  shows "x - x ^ 3 / 6 \<le> sin x"
proof (cases "x = 0")
  case True
  then show ?thesis by simp
next
  case False
  with assms have "0 < x" by simp
  then obtain t where "sin x = (\<Sum>m<3. sin_coeff m * x ^ m) + (sin (t + 1/2 * real (3::nat) * pi) / fact 3) * x ^ 3"
    using Maclaurin_sin_expansion3 [of 3 x] by auto
  then have eq: "sin x = x + sin (t + 1/2 * 3 * pi) / 6 * x ^ 3"
    by (simp add: sin_coeff_def numeral_3_eq_3 fact_numeral)
  have "- 1 \<le> sin (t + 1/2 * 3 * pi)"
    by (rule sin_ge_minus_one)
  then have "- 1 / 6 * x ^ 3 \<le> sin (t + 1/2 * 3 * pi) / 6 * x ^ 3"
    using assms by (intro mult_right_mono divide_right_mono) simp_all
  with eq show ?thesis by simp
qed

lemma distToSegment_point:
  "\<exists>t. 0 \<le> t \<and> t \<le> 1
     \<and> distToSegment px py ax ay bx by
         = hypot (px - (ax + t * (bx - ax))) (py - (ay + t * (by - ay)))"
proof (cases "(bx - ax) * (bx - ax) + (by - ay) * (by - ay) = 0")
  case True
  then have "distToSegment px py ax ay bx by
               = hypot (px - (ax + 0 * (bx - ax))) (py - (ay + 0 * (by - ay)))"
    by (simp add: distToSegment_def)
  then show ?thesis
    by (intro exI [of _ 0]) simp
next
  case False
  let ?t0 = "((px - ax) * (bx - ax) + (py - ay) * (by - ay))
               / ((bx - ax) * (bx - ax) + (by - ay) * (by - ay))"
  let ?t = "max 0 (min 1 ?t0)"
  have "distToSegment px py ax ay bx by
          = hypot (px - (ax + ?t * (bx - ax))) (py - (ay + ?t * (by - ay)))"
    using False by (simp add: distToSegment_def Let_def)
  moreover have "0 \<le> ?t" "?t \<le> 1"
    by simp_all
  ultimately show ?thesis
    by blast
qed

lemma distToSegment_midpoint:
  "distToSegment ((ax + bx) / 2) ((ay + by) / 2) ax ay bx by = 0"
proof (cases "(bx - ax) * (bx - ax) + (by - ay) * (by - ay) = 0")
  case True
  then have "bx - ax = 0" "by - ay = 0"
    by simp_all
  then have "bx = ax" "by = ay"
    by simp_all
  then show ?thesis
    by (simp add: distToSegment_def hypot_def)
next
  case False
  let ?l = "(bx - ax) * (bx - ax) + (by - ay) * (by - ay)"
  have "(((ax + bx) / 2 - ax) * (bx - ax) + ((ay + by) / 2 - ay) * (by - ay)) = ?l / 2"
    by (simp add: field_simps)
  then have t0: "(((ax + bx) / 2 - ax) * (bx - ax) + ((ay + by) / 2 - ay) * (by - ay)) / ?l
                   = 1 / 2"
    using False by simp
  have "distToSegment ((ax + bx) / 2) ((ay + by) / 2) ax ay bx by
          = hypot ((ax + bx) / 2 - (ax + (1 / 2) * (bx - ax)))
                  ((ay + by) / 2 - (ay + (1 / 2) * (by - ay)))"
    using False unfolding distToSegment_def Let_def t0 by simp
  also have "\<dots> = 0"
    by (simp add: hypot_def field_simps)
  finally show ?thesis .
qed

lemma isNearRoute_midpoint:
  assumes "i + 1 < length route"
    and "route ! i = (lon1, lat1)" and "route ! (i + 1) = (lon2, lat2)"
  shows "isNearRoute ((lat1 + lat2) / 2) ((lon1 + lon2) / 2) route 50"
proof -
  have kept: "fineKept ((lat1 + lat2) / 2) ((lon1 + lon2) / 2) route i"
    using assms(2,3) by (simp add: fineKept_def min_def max_def)
  have "approxMeters ((lat1 + lat2) / 2) ((lon1 + lon2) / 2) route i = 0"
    using assms(2,3) by (simp add: approxMeters_def distToSegment_midpoint)
  with kept assms(1) have "0 \<in> set (fineDists ((lat1 + lat2) / 2) ((lon1 + lon2) / 2) route)"
    unfolding fineDists_iff by (intro exI [of _ i]) simp
  then show ?thesis
    unfolding isNearRoute_iff by (intro bexI [of _ 0]) simp_all
qed

lemma haversineA_upper:
  "haversineA lat1 lon1 lat2 lon2
     \<le> (pi / 360)\<^sup>2 * ((lon1 - lon2)\<^sup>2 + (lat1 - lat2)\<^sup>2)"
proof -
  let ?x = "toRad (lat2 - lat1) / 2" and ?y = "toRad (lon2 - lon1) / 2"
  let ?c = "cos (toRad lat1) * cos (toRad lat2)"
  have sq: "(sin z)\<^sup>2 \<le> z\<^sup>2" for z :: real
    using abs_sin_x_le_abs_x [of z] by (simp add: abs_le_square_iff)
  have "\<bar>?c\<bar> \<le> 1 * 1"
    unfolding abs_mult by (intro mult_mono) simp_all
  then have c: "?c \<le> 1"
    by simp
  have "?c * (sin ?y)\<^sup>2 \<le> 1 * (sin ?y)\<^sup>2"
    using c by (intro mult_right_mono) simp_all
  also have "\<dots> \<le> ?y\<^sup>2"
    using sq [of ?y] by simp
  finally have "haversineA lat1 lon1 lat2 lon2 \<le> ?x\<^sup>2 + ?y\<^sup>2"
    using sq [of ?x] by (simp add: haversineA_def)
  also have "?x\<^sup>2 + ?y\<^sup>2 = (pi / 360)\<^sup>2 * ((lon1 - lon2)\<^sup>2 + (lat1 - lat2)\<^sup>2)"
    by (simp add: toRad_def power2_eq_square field_simps)
  finally show ?thesis .
qed

lemma haversineMeters_near:
  assumes "haversineMeters lat1 lon1 lat2 lon2 = Some d"
    and "hypot (lon1 - lon2) (lat1 - lat2) < 1 / 1000"
  shows "d < 1000"
proof -
  let ?a = "haversineA lat1 lon1 lat2 lon2"
  let ?h = "hypot (lon1 - lon2) (lat1 - lat2)"
  from assms(1) have a0: "0 \<le> ?a" and d: "d = 6371000 * 2 * arcsin (sqrt ?a)"
    by (auto simp: haversineMeters_arcsin split: if_splits)
  have h0: "0 \<le> ?h"
    by (simp add: hypot_def)
  have h2: "?h\<^sup>2 = (lon1 - lon2)\<^sup>2 + (lat1 - lat2)\<^sup>2"
    by (simp add: hypot_def)
  have "?a \<le> (pi / 360)\<^sup>2 * ?h\<^sup>2"
    unfolding h2 by (rule haversineA_upper)
  also have "\<dots> = (pi / 360 * ?h)\<^sup>2"
    by (simp only: power_mult_distrib)
  finally have "sqrt ?a \<le> pi / 360 * ?h"
    using h0 by (intro real_le_lsqrt) simp_all
  also have "\<dots> \<le> 4 / 360 * (1 / 1000)"
    using pi_less_4 assms(2) h0 by (intro mult_mono) simp_all
  also have "\<dots> \<le> 1 / 20000 - (1 / 20000) ^ 3 / 6"
    by (simp add: power3_eq_cube)
  also have "\<dots> \<le> sin (1 / 20000)"
    by (rule sin_lower) simp
  finally have le: "sqrt ?a \<le> sin (1 / 20000)" .
  have "arcsin (sqrt ?a) \<le> arcsin (sin (1 / 20000))"
  proof (rule arcsin_le_arcsin)
    have "0 \<le> sqrt ?a" using a0 by simp
    then show "- 1 \<le> sqrt ?a" by linarith
  qed (use le in simp_all)
  also have "arcsin (sin (1 / 20000)) = 1 / 20000"
  proof (rule arcsin_sin)
    have "(1 :: real) / 20000 \<le> 2 / 2" by simp
    also have "\<dots> \<le> pi / 2" using pi_ge_two by simp
    finally show "(1 :: real) / 20000 \<le> pi / 2" .
    have "- (pi / 2) \<le> 0" by simp
    then show "- (pi / 2) \<le> 1 / 20000" by linarith
  qed
  finally show ?thesis
    unfolding d by simp
qed

lemma arcsin_ge_self:
  assumes "0 \<le> z" and "z \<le> 1"
  shows "z \<le> arcsin z"
proof -
  have "0 \<le> arcsin z"
    using assms by (intro arcsin_nonneg) simp
  then have "sin (arcsin z) \<le> arcsin z"
    by (rule sin_x_le_x)
  then show ?thesis
    using assms by simp
qed

lemma haversineMeters_lower_lat:
  assumes "0 \<le> cos (toRad lat1) * cos (toRad lat2)" and "\<bar>lat2 - lat1\<bar> \<le> 180"
  shows "\<exists>d. haversineMeters lat1 lon1 lat2 lon2 = Some d
             \<and> 6371000 * \<bar>lat2 - lat1\<bar> * pi / 180 \<le> d"
proof -
  let ?a = "haversineA lat1 lon1 lat2 lon2"
  let ?x = "toRad (lat2 - lat1) / 2"
  have x: "\<bar>?x\<bar> \<le> pi / 2"
  proof -
    have "\<bar>?x\<bar> = \<bar>lat2 - lat1\<bar> * pi / 360"
      by (simp add: toRad_def abs_mult)
    also have "\<dots> \<le> 180 * pi / 360"
      using assms(2) by (intro divide_right_mono mult_right_mono) simp_all
    finally show ?thesis by simp
  qed
  have "0 \<le> cos (toRad lat1) * cos (toRad lat2) * (sin (toRad (lon2 - lon1) / 2))\<^sup>2"
    by (rule mult_nonneg_nonneg) (use assms(1) in simp_all)
  then have ge: "(sin ?x)\<^sup>2 \<le> ?a"
    by (simp add: haversineA_def)
  then have a0: "0 \<le> ?a"
    by (rule order_trans [rotated]) simp
  have a1: "?a \<le> 1"
    by (rule haversineA_le_1)
  have "\<bar>?x\<bar> = arcsin (sin \<bar>?x\<bar>)"
    using x by (intro arcsin_sin [symmetric]) simp_all
  also have "\<dots> = arcsin (sqrt ((sin ?x)\<^sup>2))"
    using x by (simp add: abs_sin_small)
  also have "\<dots> \<le> arcsin (sqrt ?a)"
  proof (rule arcsin_le_arcsin)
    show "- 1 \<le> sqrt ((sin ?x)\<^sup>2)"
      by (rule order_trans [of _ 0]) simp_all
    show "sqrt ((sin ?x)\<^sup>2) \<le> sqrt ?a"
      using ge by (rule real_sqrt_le_mono)
    show "sqrt ?a \<le> 1"
      using a1 by simp
  qed
  finally have "\<bar>lat2 - lat1\<bar> * pi / 360 \<le> arcsin (sqrt ?a)"
    by (simp add: toRad_def abs_mult)
  then have "6371000 * \<bar>lat2 - lat1\<bar> * pi / 180 \<le> 6371000 * 2 * arcsin (sqrt ?a)"
    by (simp add: field_simps)
  with a0 show ?thesis
    by (simp add: haversineMeters_arcsin)
qed

lemma cos_half:
  assumes "\<bar>lat\<bar> \<le> 60"
  shows "1 / 2 \<le> cos (toRad lat)"
proof -
  have "\<bar>toRad lat\<bar> = \<bar>lat\<bar> * pi / 180"
    by (simp add: toRad_def abs_mult)
  also have "\<dots> \<le> 60 * pi / 180"
    using assms by (intro divide_right_mono mult_right_mono) simp_all
  finally have le: "\<bar>toRad lat\<bar> \<le> pi / 3"
    by simp
  have "cos (pi / 3) \<le> cos \<bar>toRad lat\<bar>"
    using le by (intro cos_monotone_0_pi_le) simp_all
  then show ?thesis
    by (simp add: cos_60)
qed

lemma haversineMeters_lower_lon:
  assumes "\<bar>lat1\<bar> \<le> 60" and "\<bar>lat2\<bar> \<le> 60"
    and "1 \<le> \<bar>lon2 - lon1\<bar>" and "\<bar>lon2 - lon1\<bar> \<le> 180"
  shows "\<exists>d. haversineMeters lat1 lon1 lat2 lon2 = Some d \<and> 1000 \<le> d"
proof -
  let ?a = "haversineA lat1 lon1 lat2 lon2"
  let ?y = "toRad (lon2 - lon1) / 2"
  let ?c = "cos (toRad lat1) * cos (toRad lat2)"
  have "1 / 2 * (1 / 2) \<le> ?c"
    using cos_half [OF assms(1)] cos_half [OF assms(2)] by (intro mult_mono) simp_all
  then have c: "1 / 4 \<le> ?c"
    by simp
  have yabs: "\<bar>?y\<bar> = \<bar>lon2 - lon1\<bar> * pi / 360"
    by (simp add: toRad_def abs_mult)
  have y_hi: "\<bar>?y\<bar> \<le> pi / 2"
  proof -
    have "\<bar>lon2 - lon1\<bar> * pi / 360 \<le> 180 * pi / 360"
      using assms(4) by (intro divide_right_mono mult_right_mono) simp_all
    then show ?thesis
      unfolding yabs by simp
  qed
  have y_lo: "1 / 180 \<le> \<bar>?y\<bar>"
  proof -
    have "(1 :: real) / 180 = 1 * 2 / 360" by simp
    also have "\<dots> \<le> \<bar>lon2 - lon1\<bar> * pi / 360"
      using assms(3) pi_ge_two by (intro divide_right_mono mult_mono) simp_all
    finally show ?thesis
      unfolding yabs .
  qed
  have "(1 :: real) / 200 \<le> 1 / 180 - (1 / 180) ^ 3 / 6"
    by (simp add: power3_eq_cube)
  also have "\<dots> \<le> sin (1 / 180)"
    by (rule sin_lower) simp
  also have "\<dots> \<le> sin \<bar>?y\<bar>"
  proof (rule sin_monotone_2pi_le)
    have "- (pi / 2) \<le> 0" by simp
    then show "- (pi / 2) \<le> 1 / 180" by linarith
  qed (use y_lo y_hi in simp_all)
  finally have s: "1 / 200 \<le> sin \<bar>?y\<bar>" .
  have "(1 / 200)\<^sup>2 \<le> (sin \<bar>?y\<bar>)\<^sup>2"
    using s by (intro power_mono) simp_all
  also have "(sin \<bar>?y\<bar>)\<^sup>2 = (sin ?y)\<^sup>2"
    by (cases "0 \<le> ?y") simp_all
  finally have s2: "(1 / 200)\<^sup>2 \<le> (sin ?y)\<^sup>2" .
  have "1 / 4 * (1 / 200)\<^sup>2 \<le> ?c * (sin ?y)\<^sup>2"
    using c s2 by (intro mult_mono) simp_all
  also have "\<dots> \<le> ?a"
    by (simp add: haversineA_def)
  finally have lo: "(1 / 400)\<^sup>2 \<le> ?a"
    by (simp add: power2_eq_square)
  then have a0: "0 \<le> ?a"
    by (rule order_trans [rotated]) simp
  have a1: "sqrt ?a \<le> 1"
    using haversineA_le_1 [of lat1 lon1 lat2 lon2] by simp
  have "1 / 400 \<le> sqrt ?a"
    using lo by (rule real_le_rsqrt)
  also have "\<dots> \<le> arcsin (sqrt ?a)"
    using a0 a1 by (intro arcsin_ge_self) simp_all
  finally have "1000 \<le> 6371000 * 2 * arcsin (sqrt ?a)"
    by simp
  with a0 show ?thesis
    by (simp add: haversineMeters_arcsin)
qed

lemma sampleStep_short: "length route < 1000 \<Longrightarrow> sampleStep route = 1"
  by (simp add: sampleStep_def)

lemma coarseDist_midpoint:
  assumes "length route < 1000" and "k + 1 < length route"
  shows "coarseDist clat clon route k
           = haversineMeters clat clon (snd (pointOn route k (1 / 2))) (fst (pointOn route k (1 / 2)))"
proof -
  have j: "min (k + sampleStep route) (length route - 1) = k + 1"
    using assms by (simp add: sampleStep_short)
  obtain lon1 lat1 lon2 lat2 where p: "route ! k = (lon1, lat1)" "route ! Suc k = (lon2, lat2)"
    by (metis surj_pair)
  show ?thesis
    unfolding coarseDist_def pointOn_def j by (simp add: p)
qed

lemma far_coarse:
  assumes "length route < 1000" and "farFrom clat clon route 1000"
    and "d \<in> set (coarseDists clat clon route)"
  shows "1000 \<le> d"
proof -
  from assms(3) obtain k where k: "k \<in> set (coarseTurns route)"
    and d: "coarseDist clat clon route k = Some d"
    unfolding coarseDists_iff by blast
  from k have inside: "k + 1 < length route"
    unfolding coarseTurns_iff by blast
  have "\<exists>d. haversineMeters clat clon (snd (pointOn route k (1 / 2)))
               (fst (pointOn route k (1 / 2))) = Some d \<and> 1000 \<le> d"
    using assms(2) [unfolded farFrom_def, rule_format, OF inside, of "1 / 2"] by simp
  then obtain d' where
    "haversineMeters clat clon (snd (pointOn route k (1 / 2))) (fst (pointOn route k (1 / 2)))
       = Some d'" and "1000 \<le> d'"
    by blast
  with d coarseDist_midpoint [OF assms(1) inside, of clat clon] show ?thesis
    by simp
qed

lemma far_fine:
  assumes "\<bar>clat\<bar> \<le> 60" and "farFrom clat clon route 1000"
    and "d \<in> set (fineDists clat clon route)"
  shows "50 \<le> d"
proof -
  from assms(3) obtain k where inside: "k + 1 < length route"
    and d: "approxMeters clat clon route k = d"
    unfolding fineDists_iff by blast
  obtain lon1 lat1 lon2 lat2 where p: "route ! k = (lon1, lat1)" "route ! Suc k = (lon2, lat2)"
    by (metis surj_pair)
  obtain t where t: "0 \<le> t" "t \<le> 1"
    and flat: "distToSegment clon clat lon1 lat1 lon2 lat2
                 = hypot (clon - (lon1 + t * (lon2 - lon1))) (clat - (lat1 + t * (lat2 - lat1)))"
    using distToSegment_point by blast
  have q: "pointOn route k t = (lon1 + t * (lon2 - lon1), lat1 + t * (lat2 - lat1))"
    by (simp add: pointOn_def p)
  have "\<exists>d. haversineMeters clat clon (snd (pointOn route k t)) (fst (pointOn route k t)) = Some d
             \<and> 1000 \<le> d"
    using assms(2) [unfolded farFrom_def, rule_format, OF inside t] .
  then obtain d' where
    hav: "haversineMeters clat clon (lat1 + t * (lat2 - lat1)) (lon1 + t * (lon2 - lon1)) = Some d'"
    and far: "1000 \<le> d'"
    unfolding q by auto
  have "\<not> hypot (clon - (lon1 + t * (lon2 - lon1))) (clat - (lat1 + t * (lat2 - lat1))) < 1 / 1000"
    using haversineMeters_near [OF hav] far by force
  then have h: "1 / 1000 \<le> distToSegment clon clat lon1 lat1 lon2 lat2"
    unfolding flat by simp
  have c: "1 / 2 \<le> cos (clat * pi / 180)"
    using cos_half [OF assms(1)] by (simp add: toRad_def)
  have "(50 :: real) \<le> 1 / 1000 * 111320 * (1 / 2)"
    by simp
  also have "\<dots> \<le> distToSegment clon clat lon1 lat1 lon2 lat2 * 111320 * cos (clat * pi / 180)"
    using h c by (intro mult_mono) simp_all
  also have "\<dots> = d"
    unfolding d [symmetric] by (simp add: approxMeters_def p)
  finally show ?thesis .
qed

text \<open>
  The fine loop on its own rejects a centroid that is 1000 m or more from every point of
  the route; so does the whole function when the route has fewer than 1000 points, since
  the first loop then samples consecutive points and measures the distance to a point of
  the route. (Both are shown for a centroid within 60 degrees of the equator.)
\<close>

lemma finePass_rejects_far:
  assumes "\<bar>centroidLat\<bar> \<le> 60" and "farFrom centroidLat centroidLon route 1000"
  shows "\<not> finePass centroidLat centroidLon route 50 0"
proof
  assume "finePass centroidLat centroidLon route 50 0"
  then obtain k where "k + 1 < length route" "fineKept centroidLat centroidLon route k"
    and near: "approxMeters centroidLat centroidLon route k < 50"
    unfolding finePass_iff by blast
  then have "approxMeters centroidLat centroidLon route k
               \<in> set (fineDists centroidLat centroidLon route)"
    unfolding fineDists_iff by blast
  from far_fine [OF assms this] near show False
    by simp
qed

lemma isNearRoute_rejects_far_short:
  assumes short: "length route < 1000" and lat: "\<bar>centroidLat\<bar> \<le> 60"
    and far: "farFrom centroidLat centroidLon route 1000"
  shows "\<not> isNearRoute centroidLat centroidLon route 50"
  unfolding isNearRoute_iff
proof
  assume "\<exists>d \<in> set (coarseDists centroidLat centroidLon route)
                \<union> set (fineDists centroidLat centroidLon route). d < 50"
  then obtain d where "d < 50"
    and "d \<in> set (coarseDists centroidLat centroidLon route)
           \<or> d \<in> set (fineDists centroidLat centroidLon route)"
    by blast
  with far_coarse [OF short far, of d] far_fine [OF lat far, of d] show False
    by auto
qed

lemma kmNorth_bounds: "0 < kmNorth" "kmNorth \<le> 1"
proof -
  show "0 < kmNorth"
    by (simp add: kmNorth_def)
  have "180 \<le> 6371 * pi"
    using pi_ge_two by linarith
  then show "kmNorth \<le> 1"
    by (simp add: kmNorth_def)
qed

lemma kmNorth_metres: "6371000 * kmNorth * pi / 180 = 1000"
  by (simp add: kmNorth_def)

lemma cos_kmNorth: "0 \<le> cos (toRad kmNorth)"
proof (rule cos_ge_zero)
  have "0 \<le> toRad kmNorth"
    using kmNorth_bounds(1) by (simp add: toRad_def)
  then show "- (pi / 2) \<le> toRad kmNorth"
    by (rule order_trans [rotated]) simp
  have "toRad kmNorth = 1 / 6371"
    by (simp add: toRad_def kmNorth_def)
  also have "\<dots> \<le> 2 / 2"
    by simp
  also have "\<dots> \<le> pi / 2"
    using pi_ge_two by simp
  finally show "toRad kmNorth \<le> pi / 2" .
qed

text \<open>
  A route of 1000 points is sampled with a step of 2. The first loop measures the distance
  to the midpoint of the chord from point 0 to point 2 of \<open>hairpin\<close>, which is no point of
  the route; that midpoint is the centroid \<open>(0, 0)\<close>, which is 1000 m due north of the
  nearest point of the route.
\<close>

lemma convex_abs:
  fixes a b t m :: real
  assumes "0 \<le> t" and "t \<le> 1" and "\<bar>a\<bar> \<le> m" and "\<bar>b\<bar> \<le> m"
  shows "\<bar>a + t * (b - a)\<bar> \<le> m"
proof -
  have "a + t * (b - a) = (1 - t) * a + t * b"
    by (simp add: algebra_simps)
  then have "\<bar>a + t * (b - a)\<bar> \<le> \<bar>(1 - t) * a\<bar> + \<bar>t * b\<bar>"
    by (simp only: abs_triangle_ineq)
  also have "\<dots> = (1 - t) * \<bar>a\<bar> + t * \<bar>b\<bar>"
    using assms(1,2) by (simp add: abs_mult)
  also have "\<dots> \<le> (1 - t) * m + t * m"
    using assms by (intro add_mono mult_left_mono) simp_all
  also have "\<dots> = m"
    by (simp add: algebra_simps)
  finally show ?thesis .
qed

lemma length_hairpin: "length hairpin = 1000"
  by (simp add: hairpin_def)

lemma hairpin_start: "hairpin ! 0 = (- 1, - kmNorth)" "hairpin ! Suc 0 = (1, - kmNorth)"
  "hairpin ! 2 = (1, kmNorth)"
  by (simp_all add: hairpin_def nth_append)

lemma hairpin_north:
  assumes "1 \<le> i" and "i < 1000"
  shows "\<exists>lat. hairpin ! i = (1, lat) \<and> \<bar>lat\<bar> \<le> 2"
proof (cases "i = 1")
  case True
  then show ?thesis
    using kmNorth_bounds by (simp add: hairpin_start)
next
  case False
  with assms have i: "2 \<le> i" "i - 2 < 998"
    by simp_all
  then have "hairpin ! i = (1, kmNorth + real (i - 2) / 1000)"
    by (simp add: hairpin_def nth_append)
  moreover have "\<bar>kmNorth + real (i - 2) / 1000\<bar> \<le> 2"
  proof -
    have "real (i - 2) \<le> 1000"
      using i by simp
    then have "real (i - 2) / 1000 \<le> 1"
      by simp
    moreover have "0 \<le> real (i - 2) / 1000"
      by simp
    ultimately show ?thesis
      using kmNorth_bounds by linarith
  qed
  ultimately show ?thesis
    by blast
qed

lemma farFrom_hairpin: "farFrom 0 0 hairpin 1000"
  unfolding farFrom_def
proof (intro allI impI)
  fix i :: nat and t :: real
  assume inside: "i + 1 < length hairpin" and t: "0 \<le> t" "t \<le> 1"
  show "\<exists>d. haversineMeters 0 0 (snd (pointOn hairpin i t)) (fst (pointOn hairpin i t)) = Some d
             \<and> 1000 \<le> d"
  proof (cases "i = 0")
    case True
    have q: "pointOn hairpin i t = (- 1 + t * 2, - kmNorth)"
      by (simp add: pointOn_def hairpin_start True)
    have "0 \<le> cos (toRad 0) * cos (toRad (- kmNorth))"
      using cos_kmNorth by (simp add: toRad_def)
    moreover have "\<bar>- kmNorth - 0\<bar> \<le> 180"
      using kmNorth_bounds by simp
    ultimately obtain d where "haversineMeters 0 0 (- kmNorth) (- 1 + t * 2) = Some d"
      and "6371000 * \<bar>- kmNorth - 0\<bar> * pi / 180 \<le> d"
      using haversineMeters_lower_lat [of 0 "- kmNorth" 0 "- 1 + t * 2"] by blast
    then show ?thesis
      using kmNorth_bounds(1) kmNorth_metres by (simp add: q)
  next
    case False
    with inside have i: "1 \<le> i" "i < 1000" "1 \<le> i + 1" "i + 1 < 1000"
      by (simp_all add: length_hairpin)
    obtain lat1 where p1: "hairpin ! i = (1, lat1)" and b1: "\<bar>lat1\<bar> \<le> 2"
      using hairpin_north [OF i(1,2)] by blast
    obtain lat2 where p2: "hairpin ! (i + 1) = (1, lat2)" and b2: "\<bar>lat2\<bar> \<le> 2"
      using hairpin_north [OF i(3,4)] by blast
    have q: "pointOn hairpin i t = (1, lat1 + t * (lat2 - lat1))"
      using p1 p2 by (simp add: pointOn_def)
    have "\<bar>lat1 + t * (lat2 - lat1)\<bar> \<le> 2"
      using t b1 b2 by (rule convex_abs)
    then have "\<bar>lat1 + t * (lat2 - lat1)\<bar> \<le> 60"
      by simp
    then have "\<exists>d. haversineMeters 0 0 (lat1 + t * (lat2 - lat1)) 1 = Some d \<and> 1000 \<le> d"
      by (intro haversineMeters_lower_lon) simp_all
    then show ?thesis
      by (simp add: q)
  qed
qed

lemma sampleStep_hairpin: "sampleStep hairpin = 2"
  by (simp add: sampleStep_def length_hairpin)

lemma coarseDist_hairpin: "coarseKept 0 0 hairpin 0 \<and> coarseDist 0 0 hairpin 0 = Some 0"
proof -
  have j: "min (0 + sampleStep hairpin) (length hairpin - 1) = 2"
    by (simp add: sampleStep_hairpin length_hairpin)
  have kept: "coarseKept 0 0 hairpin 0"
    unfolding coarseKept_def j by (simp add: hairpin_start)
  have "haversineMeters 0 0 0 0 = Some (6371000 * \<bar>0 - 0\<bar> * pi / 180)"
    by (rule haversineMeters_same_lon) simp
  then have "coarseDist 0 0 hairpin 0 = Some 0"
    unfolding coarseDist_def j by (simp add: hairpin_start)
  with kept show ?thesis
    by simp
qed

lemma isNearRoute_hairpin: "isNearRoute 0 0 hairpin 50"
proof -
  have turn: "0 \<in> set (coarseTurns hairpin)"
    unfolding coarseTurns_iff by (intro exI [of _ 0]) (simp add: length_hairpin)
  with coarseDist_hairpin have "0 \<in> set (coarseDists 0 0 hairpin)"
    unfolding coarseDists_iff by blast
  then show ?thesis
    unfolding isNearRoute_iff by (intro bexI [of _ 0]) simp_all
qed

text \<open>
  C8. The route \<open>hairpin\<close> has 1000 points. Every point of it is 1000 m or more from the
  centroid \<open>(0, 0)\<close>, and the nearest one, due south of the centroid on the first segment,
  is at exactly 1000 m. The fine loop rejects the centroid. The first loop samples the
  points 0 and 2, finds the distance 0 to the midpoint of their chord, and \<open>isNearRoute\<close>
  accepts the centroid with the threshold of 50 m.
\<close>

theorem isNearRoute_accepts_far_centroid:
  "length hairpin = 1000
   \<and> sampleStep hairpin = 2
   \<and> farFrom 0 0 hairpin 1000
   \<and> pointOn hairpin 0 (1 / 2) = (0, - kmNorth)
   \<and> haversineMeters 0 0 (- kmNorth) 0 = Some 1000
   \<and> \<not> finePass 0 0 hairpin 50 0
   \<and> coarseDist 0 0 hairpin 0 = Some 0
   \<and> isNearRoute 0 0 hairpin 50"
proof -
  have nearest: "haversineMeters 0 0 (- kmNorth) 0 = Some 1000"
    using haversineMeters_same_lon [of "- kmNorth" 0 0] kmNorth_bounds kmNorth_metres
    by simp
  have south: "pointOn hairpin 0 (1 / 2) = (0, - kmNorth)"
    by (simp add: pointOn_def hairpin_start)
  have fine: "\<not> finePass 0 0 hairpin 50 0"
    by (rule finePass_rejects_far [OF _ farFrom_hairpin]) simp
  from length_hairpin sampleStep_hairpin farFrom_hairpin south nearest fine
    coarseDist_hairpin isNearRoute_hairpin
  show ?thesis
    by (intro conjI) simp_all
qed

theorem isNearRoute_accepts_far_centroid_witness:
  "0 + 1 < length hairpin \<and> (0 :: real) \<le> 1 / 2 \<and> (1 / 2 :: real) \<le> 1
   \<and> (\<exists>d. haversineMeters 0 0 (snd (pointOn hairpin 0 (1 / 2)))
              (fst (pointOn hairpin 0 (1 / 2))) = Some d \<and> 1000 \<le> d)
   \<and> isNearRoute 0 0 hairpin 50"
proof -
  have inside: "0 + 1 < length hairpin"
    by (simp add: length_hairpin)
  from isNearRoute_accepts_far_centroid have far: "farFrom 0 0 hairpin 1000"
    and near: "isNearRoute 0 0 hairpin 50"
    by blast+
  have "\<exists>d. haversineMeters 0 0 (snd (pointOn hairpin 0 (1 / 2)))
              (fst (pointOn hairpin 0 (1 / 2))) = Some d \<and> 1000 \<le> d"
    using far [unfolded farFrom_def, rule_format, OF inside, of "1 / 2"] by simp
  with inside near show ?thesis
    by simp
qed

section \<open>Properties of the spatial query client\<close>

text \<open>
  C9. When the service answers with a non-success status and the body can be read,
  \<open>queryOverpassBboxes\<close> fails with an error whose message holds the status, and nothing of
  the body; the first 200 characters of the body go to the console, after the status.
\<close>

theorem queryOverpassBboxes_http_error:
  assumes "fetch env (w_service w) (''data='' @ encodeURIComponent env (buildQuery env bboxes))
             = (Inr res, s')"
    and "\<not> res_ok res"
    and "res_text res = Inr text"
  shows "fst (queryOverpassBboxes env bboxes w)
           = Inl (Error (''Overpass API HTTP '' @ string_of_nat (res_status res)))
       \<and> w_console (snd (queryOverpassBboxes env bboxes w))
           = w_console w
             @ [ConsoleLog
                  [''[Overpass] Querying '' @ string_of_nat (length bboxes)
                     @ '' bbox segments (query length: ''
                     @ string_of_nat (length (buildQuery env bboxes)) @ '')''],
                ConsoleError
                  [''[Overpass] HTTP error:'', string_of_nat (res_status res), take 200 text]]"
  using assms by (simp add: queryOverpassBboxes_def Let_def writeLine_def)

lemma string_of_nat_500: "string_of_nat 500 = ''500''"
  by (simp add: string_of_nat.simps digit_def)

theorem queryOverpassBboxes_http_error_witness:
  "fst (queryOverpassBboxes (scriptedEnv []) []
          (startWorld [Inr \<lparr>res_status = 500, res_text = Inr ''busy''\<rparr>]))
     = Inl (Error ''Overpass API HTTP 500'')
   \<and> last (w_console (snd (queryOverpassBboxes (scriptedEnv []) []
          (startWorld [Inr \<lparr>res_status = 500, res_text = Inr ''busy''\<rparr>]))))
     = ConsoleError [''[Overpass] HTTP error:'', ''500'', ''busy'']"
  using queryOverpassBboxes_http_error
    [of "scriptedEnv []" "startWorld [Inr \<lparr>res_status = 500, res_text = Inr ''busy''\<rparr>]" "[]"
        "\<lparr>res_status = 500, res_text = Inr ''busy''\<rparr>" "[]" "''busy''"]
  by (simp add: scriptedEnv_def startWorld_def res_ok_def string_of_nat_500)

text \<open>
  Two responses with the same status and different bodies give the same error: the error
  holds no copy of the body.
\<close>

theorem queryOverpassBboxes_error_without_body:
  "fst (queryOverpassBboxes (scriptedEnv []) []
          (startWorld [Inr \<lparr>res_status = 500, res_text = Inr ''busy''\<rparr>]))
     = Inl (Error ''Overpass API HTTP 500'')
   \<and> fst (queryOverpassBboxes (scriptedEnv []) []
          (startWorld [Inr \<lparr>res_status = 500, res_text = Inr ''rate limited''\<rparr>]))
     = Inl (Error ''Overpass API HTTP 500'')"
  by (simp add: queryOverpassBboxes_def Let_def writeLine_def scriptedEnv_def startWorld_def
      res_ok_def string_of_nat_500)

section \<open>Centroid\<close>

lemma foldl_sumStep:
  "foldl (sumStep positions) (sumLat, sumLon, count) nodes
     = (sumLat + sum_list (map fst (concat (map (\<lambda>nodeId. case positions nodeId of Some p \<Rightarrow> [p] | None \<Rightarrow> []) nodes))),
        sumLon + sum_list (map snd (concat (map (\<lambda>nodeId. case positions nodeId of Some p \<Rightarrow> [p] | None \<Rightarrow> []) nodes))),
        count + length (concat (map (\<lambda>nodeId. case positions nodeId of Some p \<Rightarrow> [p] | None \<Rightarrow> []) nodes)))"
  by (induction nodes arbitrary: sumLat sumLon count)
     (auto simp: sumStep_def split: option.splits)

lemma sumWay_nodes:
  "el_nodes way = Some nodes \<Longrightarrow>
   sumWay positions acc way = Inr (foldl (sumStep positions) acc nodes)"
  by (simp add: sumWay_def)

lemma resolved_Cons:
  "el_nodes way = Some nodes \<Longrightarrow>
   resolved positions (way # ways)
     = concat (map (\<lambda>nodeId. case positions nodeId of Some p \<Rightarrow> [p] | None \<Rightarrow> []) nodes)
       @ resolved positions ways"
  by (simp add: resolved_def nodesOf_def)

lemma forOf_sumWay:
  "\<forall>way \<in> set ways. el_nodes way \<noteq> None \<Longrightarrow>
   forOf (sumWay positions) (sumLat, sumLon, count) ways
     = Inr (sumLat + sum_list (map fst (resolved positions ways)),
            sumLon + sum_list (map snd (resolved positions ways)),
            count + length (resolved positions ways))"
proof (induction ways arbitrary: sumLat sumLon count)
  case Nil
  then show ?case by (simp add: resolved_def)
next
  case (Cons way ways)
  then obtain nodes where nodes: "el_nodes way = Some nodes"
    by auto
  from Cons.prems have rest: "\<forall>way \<in> set ways. el_nodes way \<noteq> None"
    by simp
  show ?case
    by (simp add: sumWay_nodes [OF nodes] foldl_sumStep Cons.IH [OF rest]
        resolved_Cons [OF nodes])
qed

lemma groupSums_resolved:
  "\<forall>way \<in> set ways. el_nodes way \<noteq> None \<Longrightarrow>
   groupSums positions ways
     = Inr (sum_list (map fst (resolved positions ways)),
            sum_list (map snd (resolved positions ways)),
            length (resolved positions ways))"
  by (simp add: groupSums_def forOf_sumWay)

lemma centroid_resolved:
  "\<forall>way \<in> set ways. el_nodes way \<noteq> None \<Longrightarrow>
   centroid positions ways = Inr (meanPosition (resolved positions ways))"
  by (simp add: centroid_def groupSums_resolved meanPosition_def)

text \<open>
  C5. A junction group is made of ways that have a \<open>nodes\<close> array (the grouper throws on
  any other way, lemma \<open>deduplicateRoundabouts_returns\<close>). The centroid of a group is the
  arithmetic mean of the positions that the node references of its ways resolve to in the
  position table, one contribution for each reference (a node id that occurs twice counts
  twice). A group none of whose references resolves has no centroid and is skipped: the
  count stays as it is, and nothing is thrown. Otherwise the proximity test runs on that
  centroid.
\<close>

theorem centroid_mean_of_references:
  assumes "\<forall>way \<in> set ways. el_nodes way \<noteq> None"
  shows "centroid positions ways = Inr (meanPosition (resolved positions ways))
   \<and> (resolved positions ways = [] \<longrightarrow>
        centroid positions ways = Inr None
        \<and> nearStep positions coords nearCount (gid, ways) = Inr nearCount)
   \<and> (\<forall>centroidLat centroidLon.
        centroid positions ways = Inr (Some (centroidLat, centroidLon)) \<longrightarrow>
        nearStep positions coords nearCount (gid, ways)
          = Inr (if isNearRoute centroidLat centroidLon coords 50 then nearCount + 1
                 else nearCount))"
  by (simp add: centroid_resolved [OF assms] meanPosition_def nearStep_def)

lemma positions_two:
  "nodePositions [node 21 0 0, node 22 3 3] = [21 \<mapsto> (0, 0), 22 \<mapsto> (3, 3)]"
  by (simp add: nodePositions_def positionStep_def node_def)

theorem centroid_mean_of_references_witness:
  "el_nodes (roundabout 101 [31, 32]) \<noteq> None
   \<and> resolved (nodePositions [node 21 0 0, node 22 3 3]) [roundabout 101 [31, 32]] = []
   \<and> centroid (nodePositions [node 21 0 0, node 22 3 3]) [roundabout 101 [31, 32]] = Inr None
   \<and> nearStep (nodePositions [node 21 0 0, node 22 3 3]) [(0, 0), (1, 0)] 5
       (Some 0, [roundabout 101 [31, 32]]) = Inr 5
   \<and> el_nodes (roundabout 102 [21, 22]) \<noteq> None
   \<and> centroid (nodePositions [node 21 0 0, node 22 3 3]) [roundabout 102 [21, 22]]
       = Inr (Some (3 / 2, 3 / 2))
   \<and> nearStep (nodePositions [node 21 0 0, node 22 3 3]) [(0, 0), (1, 0)] 5
       (Some 1, [roundabout 102 [21, 22]])
       = Inr (if isNearRoute (3 / 2) (3 / 2) [(0, 0), (1, 0)] 50 then 5 + 1 else 5)"
proof -
  let ?pos = "nodePositions [node 21 0 0, node 22 3 3]"
  have nodes1: "\<forall>way \<in> set [roundabout 101 [31, 32]]. el_nodes way \<noteq> None"
    by (simp add: roundabout_fields)
  have nodes2: "\<forall>way \<in> set [roundabout 102 [21, 22]]. el_nodes way \<noteq> None"
    by (simp add: roundabout_fields)
  have none: "resolved ?pos [roundabout 101 [31, 32]] = []"
    unfolding positions_two by (simp add: resolved_def roundabout_fields)
  have mean: "meanPosition (resolved ?pos [roundabout 102 [21, 22]]) = Some (3 / 2, 3 / 2)"
    unfolding positions_two by (simp add: resolved_def roundabout_fields meanPosition_def)
  have "resolved ?pos [roundabout 101 [31, 32]] = [] \<longrightarrow>
          centroid ?pos [roundabout 101 [31, 32]] = Inr None
          \<and> nearStep ?pos [(0, 0), (1, 0)] 5 (Some 0, [roundabout 101 [31, 32]]) = Inr 5"
    using centroid_mean_of_references
      [OF nodes1, of ?pos "[(0, 0), (1, 0)]" 5 "Some 0"]
    by blast
  with none have skipped: "centroid ?pos [roundabout 101 [31, 32]] = Inr None"
    "nearStep ?pos [(0, 0), (1, 0)] 5 (Some 0, [roundabout 101 [31, 32]]) = Inr 5"
    by blast+
  have both: "centroid ?pos [roundabout 102 [21, 22]]
          = Inr (meanPosition (resolved ?pos [roundabout 102 [21, 22]]))
        \<and> (\<forall>centroidLat centroidLon.
          centroid ?pos [roundabout 102 [21, 22]] = Inr (Some (centroidLat, centroidLon)) \<longrightarrow>
          nearStep ?pos [(0, 0), (1, 0)] 5 (Some 1, [roundabout 102 [21, 22]])
            = Inr (if isNearRoute centroidLat centroidLon [(0, 0), (1, 0)] 50 then 5 + 1
                   else 5))"
    using centroid_mean_of_references
      [OF nodes2, of ?pos "[(0, 0), (1, 0)]" 5 "Some 1"]
    by blast
  with mean have some: "centroid ?pos [roundabout 102 [21, 22]] = Inr (Some (3 / 2, 3 / 2))"
    by simp
  with both have tested: "nearStep ?pos [(0, 0), (1, 0)] 5 (Some 1, [roundabout 102 [21, 22]])
            = Inr (if isNearRoute (3 / 2) (3 / 2) [(0, 0), (1, 0)] 50 then 5 + 1 else 5)"
    by blast
  from nodes1 have given1: "el_nodes (roundabout 101 [31, 32]) \<noteq> None"
    by simp
  from nodes2 have given2: "el_nodes (roundabout 102 [21, 22]) \<noteq> None"
    by simp
  from given1 none skipped given2 some tested show ?thesis
    by (intro conjI)
qed

text \<open>
  A closed way lists its first node again at its end. With node 21 at \<open>(0, 0)\<close> and node 22
  at \<open>(3, 3)\<close>, the way 21, 22, 21 has the centroid \<open>(1, 1)\<close>; the mean over the two
  distinct nodes is \<open>(3/2, 3/2)\<close>.
\<close>

theorem centroid_counts_repeated_node:
  "centroid (nodePositions [node 21 0 0, node 22 3 3]) [roundabout 101 [21, 22, 21]]
     = Inr (Some (1, 1))
   \<and> distinctCentroid (nodePositions [node 21 0 0, node 22 3 3]) [roundabout 101 [21, 22, 21]]
     = Some (3 / 2, 3 / 2)"
  by (simp add: positions_two centroid_def groupSums_def sumWay_def sumStep_def
      distinctCentroid_def meanPosition_def roundabout_fields)

section \<open>Batch failure and retry\<close>

lemma isNearRoute_on_meridian:
  assumes "1 \<le> c" and "c \<le> 2"
  shows "isNearRoute c 0 meridian 50"
proof -
  have kept: "fineKept c 0 meridian 1"
    using assms by (simp add: fineKept_def meridian_def)
  have "distToSegment 0 c 0 1 0 2 = 0"
    using assms by (simp add: distToSegment_def hypot_def)
  then have "approxMeters c 0 meridian 1 = 0"
    by (simp add: approxMeters_def meridian_def)
  with kept have "0 \<in> set (fineDists c 0 meridian)"
    unfolding fineDists_iff by (intro exI [of _ 1]) (simp add: meridian_def)
  then show ?thesis
    unfolding isNearRoute_iff by (intro bexI [of _ 0]) simp_all
qed

lemma meridian_segments:
  "routeSegments meridian 12 = [[(0, 0), (0, 1)], [(0, 1), (0, 2)], [(0, 2)]]"
proof -
  have size: "segmentSize meridian 12 = 1"
    by (simp add: segmentSize_def meridian_def)
  show ?thesis
    by (simp add: routeSegments_def segmentsFrom.simps size slice_def) (simp add: meridian_def)
qed

lemma meridian_bboxes:
  "computeSegmentBboxes meridian 12
     = [\<lparr>bbox_s = Finite (- (3 / 1000)), bbox_n = Finite (1003 / 1000),
         bbox_w = Finite (- (3 / 1000)), bbox_e = Finite (3 / 1000)\<rparr>,
        \<lparr>bbox_s = Finite (997 / 1000), bbox_n = Finite (2003 / 1000),
         bbox_w = Finite (- (3 / 1000)), bbox_e = Finite (3 / 1000)\<rparr>,
        \<lparr>bbox_s = Finite (1997 / 1000), bbox_n = Finite (2003 / 1000),
         bbox_w = Finite (- (3 / 1000)), bbox_e = Finite (3 / 1000)\<rparr>]"
  by (simp add: computeSegmentBboxes_def meridian_segments segmentBbox_def extrema_step_def
      extrema_init_def buffer_def Let_def)

lemma ring_lengths: "length ringElements = 7" "length edgeElements = 6"
  by (simp_all add: ringElements_def edgeElements_def ringNodes_def)

lemma batch_ok:
  "w_service w = batchScript \<Longrightarrow>
   fst (batchLoop (scriptedEnv ringDocs) [b0, b1, b2] 0 ([], w)) = map Some ringElements"
  by (simp add: batchLoop.simps batchStep_def BATCH_SIZE_def slice_def queryOverpassBboxes_def
      Let_def writeLine_def scriptedEnv_def okResponse_def res_ok_def pushElements_def
      ringDocs_def document_def delay_def batchScript_def ring_lengths)

lemma batch_retry:
  "w_service w = retryScript \<Longrightarrow>
   fst (batchLoop (scriptedEnv ringDocs) [b0, b1, b2] 0 ([], w))
     = map Some (edgeElements @ ringElements)"
  by (simp add: batchLoop.simps batchStep_def retryStep_def BATCH_SIZE_def slice_def
      queryOverpassBboxes_def Let_def writeLine_def scriptedEnv_def okResponse_def res_ok_def
      pushElements_def ringDocs_def document_def delay_def retryScript_def ring_lengths)

lemma node_fields:
  "el_type (node i lat lon) = ''node''" "el_id (node i lat lon) = i"
  "el_lat (node i lat lon) = Some lat" "el_lon (node i lat lon) = Some lon"
  "el_nodes (node i lat lon) = None"
  by (simp_all add: node_def)

lemma not_roundabout_node: "\<not> isRoundaboutWay (node i lat lon)"
  by (simp add: isRoundaboutWay_def node_def)

lemma identity_simps:
  "identity (node i lat lon) = (''node'', i)" "identity (roundabout i ns) = (''way'', i)"
  by (simp_all add: identity_def node_def roundabout_def)

lemma near_step_meridian:
  assumes "groupSums positions ways = Inr (sumLat, 0, count)"
    and "0 < count" and "real count \<le> sumLat" and "sumLat \<le> 2 * real count"
  shows "nearStep positions meridian n (gid, ways) = Inr (n + 1)"
proof -
  have "centroid positions ways = Inr (Some (sumLat / real count, 0))"
    using assms by (simp add: centroid_def)
  moreover have "1 \<le> sumLat / real count" "sumLat / real count \<le> 2"
    using assms by (simp_all add: field_simps)
  ultimately show ?thesis
    using isNearRoute_on_meridian [of "sumLat / real count"] by (simp add: nearStep_def)
qed

lemma ring_positions:
  "nodePositions ([roundabout 201 [11, 12], roundabout 202 [12, 13], roundabout 203 [13, 14]]
                    @ ringNodes)
     = [11 \<mapsto> (10029 / 10000, 0), 12 \<mapsto> (10031 / 10000, 0), 13 \<mapsto> (10033 / 10000, 0),
        14 \<mapsto> (10027 / 10000, 0)]"
  "nodePositions ([roundabout 201 [11, 12], roundabout 203 [13, 14]] @ ringNodes
                    @ [roundabout 202 [12, 13]])
     = [11 \<mapsto> (10029 / 10000, 0), 12 \<mapsto> (10031 / 10000, 0), 13 \<mapsto> (10033 / 10000, 0),
        14 \<mapsto> (10027 / 10000, 0)]"
  by (simp_all add: nodePositions_def positionStep_def node_fields roundabout_def ringNodes_def)

lemma count_batch: "countNear meridian (map Some ringElements) = Inr 1"
proof -
  let ?pos = "[11 \<mapsto> (10029 / 10000, 0 :: real), 12 \<mapsto> (10031 / 10000, 0),
               13 \<mapsto> (10033 / 10000, 0), 14 \<mapsto> (10027 / 10000 :: real, 0)]"
  have first: "firstOccurrences {} (filter (\<lambda>el. el_id el \<noteq> 0) ringElements)
      = ringElements"
    by (simp add: ringElements_def ringNodes_def node_fields roundabout_fields identity_simps)
  have "None \<notin> set (map Some ringElements)"
    by auto
  from uniqueElements_eq [OF this]
  have unique: "uniqueElements (map Some ringElements) = Inr ringElements"
    unfolding objects_map_Some first .
  have groups: "deduplicateRoundabouts ringElements
      = Inr [(Some 0,
              [roundabout 201 [11, 12], roundabout 202 [12, 13], roundabout 203 [13, 14]])]"
    by (simp add: ringElements_def ringNodes_def deduplicateRoundabouts_def groupStep_def
        grouping_init_def setNodes_def collectStep_def isRoundaboutWay_roundabout
        roundabout_fields not_roundabout_node)
  have positions: "nodePositions ringElements = ?pos"
    unfolding ringElements_def by (rule ring_positions)
  have sums: "groupSums ?pos
             [roundabout 201 [11, 12], roundabout 202 [12, 13], roundabout 203 [13, 14]]
           = Inr (60184 / 10000, 0, 6)"
    by (simp add: groupSums_def sumWay_def sumStep_def roundabout_fields)
  have "forOf (nearStep ?pos meridian) 0
          [(Some 0, [roundabout 201 [11, 12], roundabout 202 [12, 13], roundabout 203 [13, 14]])]
        = Inr 1"
    using near_step_meridian [OF sums, of 0 "Some 0"] by simp
  then show ?thesis
    by (simp only: countNear_def unique groups positions sum.case)
qed

lemma count_retry: "countNear meridian (map Some (edgeElements @ ringElements)) = Inr 2"
proof -
  let ?els = "[roundabout 201 [11, 12], roundabout 203 [13, 14]] @ ringNodes
                @ [roundabout 202 [12, 13]]"
  let ?pos = "[11 \<mapsto> (10029 / 10000, 0 :: real), 12 \<mapsto> (10031 / 10000, 0),
               13 \<mapsto> (10033 / 10000, 0), 14 \<mapsto> (10027 / 10000 :: real, 0)]"
  have first: "firstOccurrences {} (filter (\<lambda>el. el_id el \<noteq> 0) (edgeElements @ ringElements))
      = ?els"
    by (simp add: edgeElements_def ringElements_def ringNodes_def node_fields
        roundabout_fields identity_simps)
  have "None \<notin> set (map Some (edgeElements @ ringElements))"
    by auto
  from uniqueElements_eq [OF this]
  have unique: "uniqueElements (map Some (edgeElements @ ringElements)) = Inr ?els"
    unfolding objects_map_Some first .
  have groups: "deduplicateRoundabouts ?els
      = Inr [(Some 0, [roundabout 201 [11, 12], roundabout 202 [12, 13]]),
             (Some 1, [roundabout 203 [13, 14]])]"
    by (simp add: ringNodes_def deduplicateRoundabouts_def groupStep_def
        grouping_init_def setNodes_def collectStep_def isRoundaboutWay_roundabout
        roundabout_fields not_roundabout_node)
  have positions: "nodePositions ?els = ?pos"
    by (rule ring_positions)
  have sums0: "groupSums ?pos [roundabout 201 [11, 12], roundabout 202 [12, 13]]
           = Inr (40124 / 10000, 0, 4)"
    by (simp add: groupSums_def sumWay_def sumStep_def roundabout_fields)
  have sums1: "groupSums ?pos [roundabout 203 [13, 14]] = Inr (20060 / 10000, 0, 2)"
    by (simp add: groupSums_def sumWay_def sumStep_def roundabout_fields)
  have "forOf (nearStep ?pos meridian) 0
          [(Some 0, [roundabout 201 [11, 12], roundabout 202 [12, 13]]),
           (Some 1, [roundabout 203 [13, 14]])]
        = Inr 2"
    using near_step_meridian [OF sums0, of 0 "Some 0"]
      near_step_meridian [OF sums1, of 1 "Some 1"] by simp
  then show ?thesis
    by (simp only: countNear_def unique groups positions sum.case)
qed

lemma countRoundabouts_result:
  "fst (countRoundabouts env geom w)
     = countNear (coordinates geom) (fst (fetchElements env (coordinates geom) w))"
  by (simp add: countRoundabouts_def countNear_def Let_def split_beta split: sum.splits)

lemma fetchElements_meridian:
  "w_service w = script \<Longrightarrow>
   fst (fetchElements env meridian w)
     = fst (batchLoop env (computeSegmentBboxes meridian 12) 0
              ([], w\<lparr>w_console := w_console w
                       @ [ConsoleLog [''[Route] '' @ string_of_nat (length meridian)
                                        @ '' coordinate points'']]\<rparr>))"
  by (simp add: fetchElements_def Let_def writeLine_def)

text \<open>
  C4. On the route \<open>meridian\<close>, with the roundabout across the edge of the first box, the
  count is 1 when the batch query succeeds. When the batch query fails and the three retries
  succeed, the accumulated list holds the same features, with way 202 after way 203 since
  the first box does not contribute way 202; the grouping then splits the chain of the three
  ways, and the count is 2.
\<close>

theorem countRoundabouts_retry_differs:
  "computeSegmentBboxes meridian 12
     = [\<lparr>bbox_s = Finite (- (3 / 1000)), bbox_n = Finite (1003 / 1000),
         bbox_w = Finite (- (3 / 1000)), bbox_e = Finite (3 / 1000)\<rparr>,
        \<lparr>bbox_s = Finite (997 / 1000), bbox_n = Finite (2003 / 1000),
         bbox_w = Finite (- (3 / 1000)), bbox_e = Finite (3 / 1000)\<rparr>,
        \<lparr>bbox_s = Finite (1997 / 1000), bbox_n = Finite (2003 / 1000),
         bbox_w = Finite (- (3 / 1000)), bbox_e = Finite (3 / 1000)\<rparr>]
   \<and> set (edgeElements @ ringElements @ []) = set ringElements
   \<and> fst (countRoundabouts (scriptedEnv ringDocs) \<lparr>coordinates = meridian\<rparr>
          (startWorld batchScript)) = Inr 1
   \<and> fst (countRoundabouts (scriptedEnv ringDocs) \<lparr>coordinates = meridian\<rparr>
          (startWorld retryScript)) = Inr 2"
proof -
  have fetched: "fst (fetchElements (scriptedEnv ringDocs) meridian (startWorld script))
      = fst (batchLoop (scriptedEnv ringDocs) (computeSegmentBboxes meridian 12) 0
               ([], (startWorld script)\<lparr>w_console := w_console (startWorld script)
                       @ [ConsoleLog [''[Route] '' @ string_of_nat (length meridian)
                                        @ '' coordinate points'']]\<rparr>))" for script
    by (rule fetchElements_meridian) (rule refl)
  have service: "w_service ((startWorld script)\<lparr>w_console := c\<rparr>) = script"
    for script :: "(js_error + response) list" and c
    by (simp add: startWorld_def)
  have ok: "fst (countRoundabouts (scriptedEnv ringDocs) \<lparr>coordinates = meridian\<rparr>
          (startWorld batchScript)) = Inr 1"
    unfolding countRoundabouts_result geometry.simps fetched meridian_bboxes
      batch_ok [OF service] count_batch ..
  have retry: "fst (countRoundabouts (scriptedEnv ringDocs) \<lparr>coordinates = meridian\<rparr>
          (startWorld retryScript)) = Inr 2"
    unfolding countRoundabouts_result geometry.simps fetched meridian_bboxes
      batch_retry [OF service] count_retry ..
  have same: "set (edgeElements @ ringElements @ []) = set ringElements"
    by (auto simp: edgeElements_def ringElements_def)
  from meridian_bboxes same ok retry show ?thesis
    by (intro conjI)
qed

section \<open>Properties of the counter\<close>




























end
